theory Spec2Isabelle
  imports Complex_Main "HOL-Library.Word"
begin

unbundle bit_operations_syntax

section \<open>Data model of \<^verbatim>\<open>src/jni/arduboy_avr.c\<close>\<close>

type_synonym u8 = "8 word"
type_synonym u32 = "32 word"
type_synonym u64 = "64 word"

subsection \<open>Constants of headers that are not part of the source tree\<close>

text \<open>
  Modelled from the spec: \<^verbatim>\<open>arduboy_avr.h\<close> (this repository's header with
  \<^verbatim>\<open>OLED_WIDTH_PX\<close>, \<^verbatim>\<open>OLED_HEIGHT_PX\<close> and \<^verbatim>\<open>enum button_e\<close>) is missing.
  The LumaMap has the display's resolution, 64 rows of 128 columns, and there is one
  button per entry of the table \<^verbatim>\<open>buttons\<close>, which has six initialisers.
\<close>

definition OLED_WIDTH_PX :: nat where
  "OLED_WIDTH_PX = 128"

definition OLED_HEIGHT_PX :: nat where
  "OLED_HEIGHT_PX = 64"

definition BTN_COUNT :: nat where
  "BTN_COUNT = 6"

text \<open>
  The display controller is simavr's \<^verbatim>\<open>ssd1306_virt\<close> part. Its memory is
  \<^verbatim>\<open>vram[SSD1306_VIRT_PAGES][SSD1306_VIRT_COLUMNS]\<close>: 8 pages of 128 columns, each
  byte a column of 8 pixels.
\<close>

definition SSD1306_VIRT_PAGES :: nat where
  "SSD1306_VIRT_PAGES = 8"

definition SSD1306_VIRT_COLUMNS :: nat where
  "SSD1306_VIRT_COLUMNS = 128"

subsection \<open>The display controller \<^verbatim>\<open>ssd1306_t\<close>\<close>

datatype ssd1306_flag =
    SSD1306_FLAG_DISPLAY_INVERTED
  | SSD1306_FLAG_DISPLAY_ON
  | SSD1306_FLAG_SEGMENT_REMAP_0
  | SSD1306_FLAG_COM_SCAN_NORMAL
  | SSD1306_FLAG_BUSY
  | SSD1306_FLAG_REENTRANT
  | SSD1306_FLAG_DIRTY

datatype ssd1306_di = SSD1306_VIRT_INSTRUCTION | SSD1306_VIRT_DATA

text \<open>
  The fields of \<^verbatim>\<open>ssd1306_t\<close> that the source reads or writes. The flag word is kept
  as the set of flags that are raised; a two-dimensional C array is a function of
  row and column, of which only the indices inside the declared bounds are ever used.
\<close>

record ssd1306_t =
  vram :: "nat \<Rightarrow> nat \<Rightarrow> u8"
  flags :: "ssd1306_flag set"
  cursor_page :: u8
  cursor_column :: u8
  di_pin :: ssd1306_di
  contrast_register :: u8

text \<open>\<^verbatim>\<open>ssd1306_get_flag\<close> yields 1 when the flag's bit is set and 0 otherwise.\<close>

definition ssd1306_get_flag :: "ssd1306_t \<Rightarrow> ssd1306_flag \<Rightarrow> bool" where
  "ssd1306_get_flag part f = (f \<in> flags part)"

text \<open>\<^verbatim>\<open>ssd1306_set_flag\<close> assigns one bit of the flag word.\<close>

definition ssd1306_set_flag :: "ssd1306_t \<Rightarrow> ssd1306_flag \<Rightarrow> bool \<Rightarrow> ssd1306_t" where
  "ssd1306_set_flag part f val =
     part\<lparr>flags := (if val then insert f (flags part) else flags part - {f})\<rparr>"

subsection \<open>The engine object\<close>

text \<open>
  simavr's \<^verbatim>\<open>avr->state\<close> takes the values of this enumeration, in this order.
\<close>

datatype cpu_state =
    cpu_Limbo
  | cpu_Stopped
  | cpu_Running
  | cpu_Sleeping
  | cpu_Step
  | cpu_StepDone
  | cpu_Done
  | cpu_Crashed

text \<open>The fields of \<^verbatim>\<open>avr_t\<close> that the source reads.\<close>

record avr_t =
  state :: cpu_state
  cycle :: u64
  frequency :: u32

text \<open>
  Memory that C reaches through a pointer is a function from the offset to the cell:
  \<^verbatim>\<open>p[i]\<close> is \<open>p i\<close>.
\<close>

type_synonym bytes = "nat \<Rightarrow> u8"

record avr_eeprom_t =
  eeprom :: bytes
  size :: nat

text \<open>
  The engine object that \<^verbatim>\<open>avr_make_mcu_by_name\<close> allocates begins with the core and
  holds the persistent memory behind it; the source declares this layout itself as
  \<^verbatim>\<open>struct mcu_t { avr_t core; avr_eeprom_t eeprom; }\<close>.
\<close>

record mcu_t =
  core :: avr_t
  eeprom_io :: avr_eeprom_t

subsection \<open>The module state \<^verbatim>\<open>mod_s\<close> and the button table\<close>

type_synonym lumamap_t = "nat \<Rightarrow> nat \<Rightarrow> u8"

text \<open>
  Two objects can stand behind a \<^verbatim>\<open>struct mcu_t *\<close> in this file: the engine object,
  whose address \<^verbatim>\<open>mod_s.avr\<close> holds during a session, and the module state itself,
  whose first member is the pointer \<^verbatim>\<open>mod_s.avr\<close> (so \<^verbatim>\<open>&mod_s.avr\<close> is the address of
  \<^verbatim>\<open>mod_s\<close>).
\<close>

datatype address = Addr_engine | Addr_mod_s_avr

text \<open>
  \<^verbatim>\<open>mod_s\<close>. The pointer \<^verbatim>\<open>avr\<close> is \<open>None\<close> when it is \<^verbatim>\<open>NULL\<close>. The field \<open>pixels\<close>
  stands for the caller's buffer that \<^verbatim>\<open>mod_s.pixels\<close> points to.
\<close>

record mod_state =
  avr :: "address option"
  ssd1306 :: ssd1306_t
  yield :: bool
  lumamap :: lumamap_t
  pixels :: "nat \<Rightarrow> u32"

record button_info =
  btn_id :: nat
  irq :: "nat option"
  name :: string
  port_name :: char
  port_idx :: nat
  pressed :: bool

text \<open>
  Everything the entry points of the file can reach: the module state, the static
  table \<^verbatim>\<open>buttons\<close>, the engine object, the calls of \<^verbatim>\<open>avr_raise_irq\<close> made so far
  (oldest first), and the absolute cycle for which the engine's timer queue holds
  \<^verbatim>\<open>update_screen\<close>.
\<close>

record machine =
  mod_s :: mod_state
  buttons :: "nat \<Rightarrow> button_info"
  mcu :: mcu_t
  raised :: "(nat option \<times> u32) list"
  timer_when :: u64

datatype error = Invalid_access

section \<open>Display decoder\<close>

text \<open>
  \<^verbatim>\<open>mod_s.lumamap[y][x] = v\<close>
\<close>

definition set_cell :: "lumamap_t \<Rightarrow> nat \<Rightarrow> nat \<Rightarrow> u8 \<Rightarrow> lumamap_t" where
  "set_cell lm y x v = lm(y := (lm y)(x := v))"

text \<open>
  The body of the innermost loop of \<^verbatim>\<open>update_lumamap\<close>, on the pair of the local
  \<^verbatim>\<open>px_col\<close> and the LumaMap:
  \<^verbatim>\<open>mod_s.lumamap[p * 8 + y][c] = px_col & 0x1; px_col >>= 1;\<close>
\<close>

definition unpack_bit :: "nat \<Rightarrow> nat \<Rightarrow> nat \<Rightarrow> u8 \<times> lumamap_t \<Rightarrow> u8 \<times> lumamap_t" where
  "unpack_bit p c y = (\<lambda>(px_col, lm). (drop_bit 1 px_col, set_cell lm (p * 8 + y) c (px_col AND 1)))"

text \<open>
  One iteration of the column loop: \<^verbatim>\<open>px_col = ssd1306->vram[p][c]\<close>, then
  \<^verbatim>\<open>for (int y = 0; y < 8; y++)\<close>.
\<close>

definition unpack_column :: "ssd1306_t \<Rightarrow> nat \<Rightarrow> nat \<Rightarrow> lumamap_t \<Rightarrow> lumamap_t" where
  "unpack_column part p c lm = snd (fold (unpack_bit p c) [0..<8] (vram part p c, lm))"

text \<open>One iteration of the page loop: \<^verbatim>\<open>for (int c = 0; c < SSD1306_VIRT_COLUMNS; c++)\<close>.\<close>

definition unpack_page :: "ssd1306_t \<Rightarrow> nat \<Rightarrow> lumamap_t \<Rightarrow> lumamap_t" where
  "unpack_page part p lm = fold (unpack_column part p) [0..<SSD1306_VIRT_COLUMNS] lm"

text \<open>\<^verbatim>\<open>update_lumamap\<close>: \<^verbatim>\<open>for (int p = 0; p < SSD1306_VIRT_PAGES; p++)\<close>.\<close>

definition update_lumamap :: "ssd1306_t \<Rightarrow> lumamap_t \<Rightarrow> lumamap_t" where
  "update_lumamap part lm = fold (unpack_page part) [0..<SSD1306_VIRT_PAGES] lm"

text \<open>
  \<^verbatim>\<open>hook_ssd1306_write_data\<close>. Its \<^verbatim>\<open>param\<close> is \<^verbatim>\<open>&mod_s.ssd1306\<close>, the pointer given at
  both registrations in \<^verbatim>\<open>arduboy_avr_setup\<close>; \<^verbatim>\<open>irq\<close> and \<^verbatim>\<open>value\<close> are not used.
\<close>

definition hook_ssd1306_write_data :: "mod_state \<Rightarrow> mod_state" where
  "hook_ssd1306_write_data s =
     (if di_pin (ssd1306 s) = SSD1306_VIRT_DATA then
        (if cursor_page (ssd1306 s) = 0 \<and> cursor_column (ssd1306 s) = 0 \<and>
            ssd1306_get_flag (ssd1306 s) SSD1306_FLAG_DIRTY
         then s\<lparr>lumamap := update_lumamap (ssd1306 s) (lumamap s),
                ssd1306 := ssd1306_set_flag (ssd1306 s) SSD1306_FLAG_DIRTY False\<rparr>
         else s)
      else s)"

text \<open>
  The words of the specification for the decoder: the condition under which a write
  notification takes a snapshot, and the luma bit of row \<open>y\<close> and column \<open>x\<close> in
  the bit-packed display memory (bit \<open>y mod 8\<close> of the byte of page \<open>y div 8\<close>).
\<close>

definition frame_origin_dirty :: "ssd1306_t \<Rightarrow> bool" where
  "frame_origin_dirty part =
     (di_pin part = SSD1306_VIRT_DATA \<and> cursor_page part = 0 \<and> cursor_column part = 0 \<and>
      SSD1306_FLAG_DIRTY \<in> flags part)"

definition luma_bit :: "ssd1306_t \<Rightarrow> nat \<Rightarrow> nat \<Rightarrow> u8" where
  "luma_bit part y x = drop_bit (y mod 8) (vram part (y div 8) x) AND 1"

definition snapshot :: "ssd1306_t \<Rightarrow> lumamap_t \<Rightarrow> lumamap_t" where
  "snapshot part lm =
     (\<lambda>y x. if y < OLED_HEIGHT_PX \<and> x < OLED_WIDTH_PX then luma_bit part y x else lm y x)"

section \<open>Frame renderer\<close>

text \<open>
  The C \<^verbatim>\<open>float\<close> opacity is a real number here. No operation of the renderer rounds:
  for a contrast \<open>c\<close> the opacity is \<open>(c + 256) / 512\<close> and its product with 255 is
  \<open>255 * (c + 256) / 512\<close>, binary fractions with at most 17 significant bits, which
  the 24-bit significand of a \<^verbatim>\<open>float\<close> holds exactly (lemma \<open>opacity_exact\<close> below).
\<close>

text \<open>
  The conversion \<^verbatim>\<open>(uint8_t)(r)\<close> of the macro \<^verbatim>\<open>RGB\<close> drops the fraction, towards
  zero. C leaves it undefined outside the range of a byte; the renderer never gets
  there (lemma \<open>opacity_exact\<close>).
\<close>

definition to_uint8 :: "real \<Rightarrow> u8" where
  "to_uint8 r = word_of_int (if 0 \<le> r then \<lfloor>r\<rfloor> else \<lceil>r\<rceil>)"

text \<open>
  \<^verbatim>\<open>#define RGB(r,g,b) (0xFF000000 | (uint8_t)(r) << 16 | (uint8_t)(g) << 8 | (uint8_t)(b))\<close>
\<close>

definition RGB :: "real \<Rightarrow> real \<Rightarrow> real \<Rightarrow> u32" where
  "RGB r g b =
     0xFF000000 OR push_bit 16 (ucast (to_uint8 r)) OR push_bit 8 (ucast (to_uint8 g))
       OR ucast (to_uint8 b)"

definition BLACK :: u32 where
  "BLACK = RGB 0 0 0"

definition get_fg_colour :: "u8 \<Rightarrow> real \<Rightarrow> u32" where
  "get_fg_colour invert opacity =
     (if invert \<noteq> 0 then BLACK else RGB (255 * opacity) (255 * opacity) (255 * opacity))"

definition get_bg_colour :: "u8 \<Rightarrow> real \<Rightarrow> u32" where
  "get_bg_colour invert opacity =
     (if invert \<noteq> 0 then get_fg_colour 0 opacity else BLACK)"

definition contrast_to_opacity :: "u8 \<Rightarrow> real" where
  "contrast_to_opacity contrast = real (unat contrast) / 512 + 0.5"

text \<open>
  The inner loop of \<^verbatim>\<open>render_screen\<close>,
  \<^verbatim>\<open>for (...; x >= 0 && x < OLED_WIDTH_PX; x += vx) *pixels++ = mod_s.lumamap[y][x] ? fg_color : bg_color;\<close>
  entered with the current \<open>x\<close>. The pair is the offset of the local pointer
  \<^verbatim>\<open>pixels\<close> from the start of the buffer, and the buffer. The step \<open>vx\<close> is 1 or -1
  in every call that \<open>render_screen\<close> makes; the conjunct \<open>vx \<noteq> 0\<close> keeps the HOL
  function total and holds back no iteration of the source.
\<close>

function render_row ::
  "lumamap_t \<Rightarrow> u32 \<Rightarrow> u32 \<Rightarrow> int \<Rightarrow> int \<Rightarrow> int \<Rightarrow> nat \<times> (nat \<Rightarrow> u32) \<Rightarrow> nat \<times> (nat \<Rightarrow> u32)" where
  "render_row lm fg_color bg_color y vx x (k, buf) =
     (if 0 \<le> x \<and> x < int OLED_WIDTH_PX \<and> vx \<noteq> 0
      then render_row lm fg_color bg_color y vx (x + vx)
             (Suc k, buf(k := (if lm (nat y) (nat x) \<noteq> 0 then fg_color else bg_color)))
      else (k, buf))"
  by pat_completeness auto
termination
  by (relation "measure (\<lambda>(lm, fg, bg, y, vx, x, kb).
        if 0 < vx then nat (int OLED_WIDTH_PX - x) else nat (x + 1))") auto

text \<open>
  The outer loop, \<^verbatim>\<open>for (...; y >= 0 && y < OLED_HEIGHT_PX; y += vy)\<close>, entered with
  the current \<open>y\<close>; every row starts again at \<open>orig_x\<close>.
\<close>

function render_rows ::
  "lumamap_t \<Rightarrow> u32 \<Rightarrow> u32 \<Rightarrow> int \<Rightarrow> int \<Rightarrow> int \<Rightarrow> int \<Rightarrow> nat \<times> (nat \<Rightarrow> u32) \<Rightarrow> nat \<times> (nat \<Rightarrow> u32)" where
  "render_rows lm fg_color bg_color orig_x vx vy y kb =
     (if 0 \<le> y \<and> y < int OLED_HEIGHT_PX \<and> vy \<noteq> 0
      then render_rows lm fg_color bg_color orig_x vx vy (y + vy)
             (render_row lm fg_color bg_color y vx orig_x kb)
      else kb)"
  by pat_completeness auto
termination
  by (relation "measure (\<lambda>(lm, fg, bg, ox, vx, vy, y, kb).
        if 0 < vy then nat (int OLED_HEIGHT_PX - y) else nat (y + 1))") auto

declare render_row.simps [simp del] render_rows.simps [simp del]

text \<open>
  \<^verbatim>\<open>render_screen\<close>, called with \<^verbatim>\<open>&mod_s.ssd1306\<close>. The \<^verbatim>\<open>int\<close> that
  \<^verbatim>\<open>ssd1306_get_flag\<close> returns for the invert flag is 0 or 1 and reaches the colour
  functions as a \<^verbatim>\<open>uint8_t\<close>.
\<close>

definition render_screen :: "mod_state \<Rightarrow> mod_state" where
  "render_screen s =
     (if \<not> ssd1306_get_flag (ssd1306 s) SSD1306_FLAG_DISPLAY_ON then s
      else
        let orig_x = (if ssd1306_get_flag (ssd1306 s) SSD1306_FLAG_SEGMENT_REMAP_0
                      then int OLED_WIDTH_PX - 1 else 0);
            vx = (if ssd1306_get_flag (ssd1306 s) SSD1306_FLAG_SEGMENT_REMAP_0 then - 1 else 1);
            orig_y = (if ssd1306_get_flag (ssd1306 s) SSD1306_FLAG_COM_SCAN_NORMAL
                      then int OLED_HEIGHT_PX - 1 else 0);
            vy = (if ssd1306_get_flag (ssd1306 s) SSD1306_FLAG_COM_SCAN_NORMAL then - 1 else 1);
            invert = (if ssd1306_get_flag (ssd1306 s) SSD1306_FLAG_DISPLAY_INVERTED then 1 else 0);
            opacity = contrast_to_opacity (contrast_register (ssd1306 s));
            bg_color = get_bg_colour invert opacity;
            fg_color = get_fg_colour invert opacity
        in s\<lparr>pixels :=
               snd (render_rows (lumamap s) fg_color bg_color orig_x vx vy orig_y (0, pixels s))\<rparr>)"

text \<open>
  The words of the specification for the renderer: a pixel is the foreground colour
  where the luma bit is set and the background colour elsewhere; a mirroring flag
  reverses the order along its axis; the LumaMap cell that lands in row \<open>r\<close>, column
  \<open>c\<close> of the row-major buffer; the colour of a pixel under the controller's invert
  flag and contrast register; and the alpha, red, green and blue bytes of an ARGB
  value.
\<close>

definition colour_of :: "u32 \<Rightarrow> u32 \<Rightarrow> u8 \<Rightarrow> u32" where
  "colour_of fg bg v = (if v \<noteq> 0 then fg else bg)"

definition mirrored :: "bool \<Rightarrow> nat \<Rightarrow> nat \<Rightarrow> nat" where
  "mirrored flip n i = (if flip then n - 1 - i else i)"

definition source_row :: "ssd1306_t \<Rightarrow> nat \<Rightarrow> nat" where
  "source_row part r = mirrored (SSD1306_FLAG_COM_SCAN_NORMAL \<in> flags part) OLED_HEIGHT_PX r"

definition source_column :: "ssd1306_t \<Rightarrow> nat \<Rightarrow> nat" where
  "source_column part c = mirrored (SSD1306_FLAG_SEGMENT_REMAP_0 \<in> flags part) OLED_WIDTH_PX c"

definition pixel_colour :: "ssd1306_t \<Rightarrow> u8 \<Rightarrow> u32" where
  "pixel_colour part v =
     (let invert = (if SSD1306_FLAG_DISPLAY_INVERTED \<in> flags part then 1 else 0);
          opacity = contrast_to_opacity (contrast_register part)
      in colour_of (get_fg_colour invert opacity) (get_bg_colour invert opacity) v)"

definition argb :: "u32 \<Rightarrow> nat \<times> nat \<times> nat \<times> nat" where
  "argb col =
     (unat (drop_bit 24 col), unat (drop_bit 16 col AND 255), unat (drop_bit 8 col AND 255),
      unat (col AND 255))"

section \<open>Frame scheduler\<close>

definition REFRESH_PERIOD_US :: u32 where
  "REFRESH_PERIOD_US = 16666"

text \<open>
  simavr's inline \<^verbatim>\<open>avr_usec_to_cycles\<close> (\<^verbatim>\<open>sim_time.h\<close>):
  \<^verbatim>\<open>return avr->frequency * (avr_cycle_count_t)usec / 1000000;\<close> in 64-bit unsigned
  arithmetic.
\<close>

definition avr_usec_to_cycles :: "avr_t \<Rightarrow> u32 \<Rightarrow> u64" where
  "avr_usec_to_cycles a usec = (ucast (frequency a) * ucast usec) div 1000000"

text \<open>
  \<^verbatim>\<open>update_screen\<close>, the cycle-timer callback: the engine passes itself, the cycle
  \<open>when\<close> the timer was scheduled for, and \<^verbatim>\<open>&mod_s.ssd1306\<close>; the value returned is the
  absolute cycle of the next firing.
\<close>

definition update_screen :: "avr_t \<Rightarrow> u64 \<Rightarrow> mod_state \<Rightarrow> u64 \<times> mod_state" where
  "update_screen a when s =
     (cycle a + avr_usec_to_cycles a REFRESH_PERIOD_US, (render_screen s)\<lparr>yield := True\<rparr>)"

section \<open>Persistent state accessor\<close>

text \<open>\<^verbatim>\<open>memcpy(dst, src, n)\<close>: the first \<open>n\<close> bytes of \<open>dst\<close> become those of \<open>src\<close>.\<close>

definition memcpy :: "bytes \<Rightarrow> bytes \<Rightarrow> nat \<Rightarrow> bytes" where
  "memcpy dst src n = (\<lambda>i. if i < n then src i else dst i)"

text \<open>
  \<^verbatim>\<open>mcu->eeprom\<close> for a \<^verbatim>\<open>struct mcu_t *mcu\<close>. The engine object is a \<^verbatim>\<open>struct mcu_t\<close>.
  The module state is not: its member \<^verbatim>\<open>avr\<close> is one pointer, and the bytes that lie
  \<^verbatim>\<open>sizeof(avr_t)\<close> behind its address are not an \<^verbatim>\<open>avr_eeprom_t\<close>, so the read has no
  defined result.
\<close>

definition mcu_eeprom :: "machine \<Rightarrow> address \<Rightarrow> error + avr_eeprom_t" where
  "mcu_eeprom m a =
     (case a of Addr_engine \<Rightarrow> Inr (eeprom_io (mcu m)) | Addr_mod_s_avr \<Rightarrow> Inl Invalid_access)"

text \<open>
  \<^verbatim>\<open>arduboy_avr_get_eeprom\<close>. The local \<^verbatim>\<open>mcu\<close> is initialised with
  \<^verbatim>\<open>(struct mcu_t *) &mod_s.avr\<close>, the address of the member, not its value. The result
  is the returned flag and the caller's array.
\<close>

definition arduboy_avr_get_eeprom :: "machine \<Rightarrow> bytes \<Rightarrow> error + bool \<times> bytes" where
  "arduboy_avr_get_eeprom m p_array =
     (if avr (mod_s m) = None then Inr (False, p_array)
      else
        (case mcu_eeprom m Addr_mod_s_avr of
           Inl e \<Rightarrow> Inl e
         | Inr ee \<Rightarrow> Inr (True, memcpy p_array (eeprom ee) (size ee))))"

text \<open>\<^verbatim>\<open>arduboy_avr_set_eeprom\<close>, with the same initialisation of \<^verbatim>\<open>mcu\<close>.\<close>

definition arduboy_avr_set_eeprom :: "machine \<Rightarrow> bytes \<Rightarrow> error + bool \<times> machine" where
  "arduboy_avr_set_eeprom m p_array =
     (if avr (mod_s m) = None then Inr (False, m)
      else
        (case mcu_eeprom m Addr_mod_s_avr of
           Inl e \<Rightarrow> Inl e
         | Inr ee \<Rightarrow>
             Inr (True,
               m\<lparr>mcu := (mcu m)\<lparr>eeprom_io := ee\<lparr>eeprom := memcpy (eeprom ee) p_array (size ee)\<rparr>\<rparr>\<rparr>)))"

section \<open>Input controller\<close>

text \<open>
  simavr's \<^verbatim>\<open>avr_raise_irq(irq, value)\<close> drives a line of the engine; the machine keeps
  the calls.
\<close>

definition avr_raise_irq :: "nat option \<Rightarrow> u32 \<Rightarrow> machine \<Rightarrow> machine" where
  "avr_raise_irq i v m = m\<lparr>raised := raised m @ [(i, v)]\<rparr>"

text \<open>
  \<^verbatim>\<open>(btn_e < BTN_COUNT) ? &buttons[btn_e] : NULL\<close>. No enumerator of \<^verbatim>\<open>enum button_e\<close>
  is negative, so the comparison is one of unsigned numbers.
\<close>

definition button_ptr :: "nat \<Rightarrow> nat option" where
  "button_ptr btn_e = (if btn_e < BTN_COUNT then Some btn_e else None)"

text \<open>\<^verbatim>\<open>arduboy_avr_button_event\<close>; \<^verbatim>\<open>!pressed\<close> is 1 for a release and 0 for a press.\<close>

definition arduboy_avr_button_event :: "nat \<Rightarrow> bool \<Rightarrow> machine \<Rightarrow> machine" where
  "arduboy_avr_button_event btn_e is_pressed m =
     (if avr (mod_s m) = None then m
      else
        (case button_ptr btn_e of
           None \<Rightarrow> m
         | Some i \<Rightarrow>
             if pressed (buttons m i) \<noteq> is_pressed
             then (avr_raise_irq (irq (buttons m i)) (if is_pressed then 0 else 1) m)
                    \<lparr>buttons := (buttons m)(i := (buttons m i)\<lparr>pressed := is_pressed\<rparr>)\<rparr>
             else m))"

text \<open>
  The words of the specification for a line: the number of times the level of line
  \<open>i\<close> changes in a run of calls of \<^verbatim>\<open>avr_raise_irq\<close>, the line being at \<open>lvl\<close> before
  them.
\<close>

fun transitions_from :: "u32 \<Rightarrow> (nat option \<times> u32) list \<Rightarrow> nat option \<Rightarrow> nat" where
  "transitions_from lvl [] i = 0"
| "transitions_from lvl ((j, v) # evs) i =
     (if j = i then (if v \<noteq> lvl then 1 else 0) + transitions_from v evs i
      else transitions_from lvl evs i)"

section \<open>Execution loop\<close>

text \<open>
  What the engine does during one call of \<^verbatim>\<open>avr_run\<close> is a sequence of actions. It
  works on its own object (\<open>Exec\<close>: instructions, the cycle counter, the cpu state,
  the persistent memory) and on the display controller part (\<open>Display\<close>: the
  registers, flags and memory of the part), neither of which this file looks into,
  and it calls back into this file through the registrations of
  \<^verbatim>\<open>arduboy_avr_setup\<close>: \<^verbatim>\<open>hook_ssd1306_write_data\<close> on the controller's
  \<^verbatim>\<open>IRQ_SSD1306_SPI_BYTE_IN\<close> and \<^verbatim>\<open>IRQ_SSD1306_TWI_OUT\<close> (\<open>Write_notify\<close>), and
  \<^verbatim>\<open>update_screen\<close> as the cycle timer (\<open>Timer_due\<close>), whose result goes back to the
  timer queue. The LumaMap, the yield flag and the pixel buffer are this file's own:
  the engine reaches them through the callbacks only.
\<close>

datatype engine_action =
    Exec "mcu_t \<Rightarrow> mcu_t"
  | Display "ssd1306_t \<Rightarrow> ssd1306_t"
  | Write_notify
  | Timer_due

fun dispatch :: "engine_action \<Rightarrow> machine \<Rightarrow> machine" where
  "dispatch (Exec f) m = m\<lparr>mcu := f (mcu m)\<rparr>"
| "dispatch (Display f) m = m\<lparr>mod_s := (mod_s m)\<lparr>ssd1306 := f (ssd1306 (mod_s m))\<rparr>\<rparr>"
| "dispatch Write_notify m = m\<lparr>mod_s := hook_ssd1306_write_data (mod_s m)\<rparr>"
| "dispatch Timer_due m =
     m\<lparr>mod_s := snd (update_screen (core (mcu m)) (timer_when m) (mod_s m)),
       timer_when := fst (update_screen (core (mcu m)) (timer_when m) (mod_s m))\<rparr>"

text \<open>
  \<^verbatim>\<open>avr_run(avr)\<close> runs the engine's \<^verbatim>\<open>run\<close> function and returns \<^verbatim>\<open>avr->state\<close>. The
  engine is a parameter: the actions it takes from a given machine.
\<close>

definition avr_run :: "(machine \<Rightarrow> engine_action list) \<Rightarrow> machine \<Rightarrow> cpu_state \<times> machine" where
  "avr_run engine m =
     (state (core (mcu (fold dispatch (engine m) m))), fold dispatch (engine m) m)"

text \<open>
  The \<^verbatim>\<open>while (!mod_s.yield)\<close> loop of \<^verbatim>\<open>arduboy_avr_loop\<close>. The value \<open>None\<close> is a loop
  that never ends.
\<close>

partial_function (option) run_burst ::
  "(machine \<Rightarrow> engine_action list) \<Rightarrow> machine \<Rightarrow> (bool \<times> machine) option" where
  "run_burst engine m =
     (if yield (mod_s m) then Some (True, m)
      else if fst (avr_run engine m) = cpu_Done \<or> fst (avr_run engine m) = cpu_Crashed
      then Some (False, snd (avr_run engine m))
      else run_burst engine (snd (avr_run engine m)))"

definition arduboy_avr_loop ::
  "(machine \<Rightarrow> engine_action list) \<Rightarrow> (nat \<Rightarrow> u32) \<Rightarrow> machine \<Rightarrow> (bool \<times> machine) option" where
  "arduboy_avr_loop engine pixel_buffer m =
     (if avr (mod_s m) = None then Some (False, m)
      else run_burst engine (m\<lparr>mod_s := (mod_s m)\<lparr>yield := False, pixels := pixel_buffer\<rparr>\<rparr>))"

text \<open>
  The words of the specification for a burst: the machine after \<open>n\<close> calls of
  \<^verbatim>\<open>avr_run\<close>, whether a machine reports a terminal state, and whether the first \<open>n\<close>
  calls of a burst all leave it running (none reports a terminal state, none leaves
  the yield flag set).
\<close>

definition after_runs :: "(machine \<Rightarrow> engine_action list) \<Rightarrow> nat \<Rightarrow> machine \<Rightarrow> machine" where
  "after_runs engine n m = ((\<lambda>m. snd (avr_run engine m)) ^^ n) m"

definition terminal :: "machine \<Rightarrow> bool" where
  "terminal m = (state (core (mcu m)) = cpu_Done \<or> state (core (mcu m)) = cpu_Crashed)"

definition keeps_running :: "(machine \<Rightarrow> engine_action list) \<Rightarrow> nat \<Rightarrow> machine \<Rightarrow> bool" where
  "keeps_running engine n m =
     (\<forall>k\<in>{1..n}. \<not> terminal (after_runs engine k m) \<and> \<not> yield (mod_s (after_runs engine k m)))"

text \<open>
  The machine with which \<^verbatim>\<open>arduboy_avr_loop\<close> enters its loop (the yield flag
  cleared, the caller's buffer bound), and the ways a burst that starts in \<open>m\<close> can end
  with the result \<open>r\<close>.
\<close>

definition ends_burst :: "(machine \<Rightarrow> engine_action list) \<Rightarrow> machine \<Rightarrow> bool \<times> machine \<Rightarrow> bool" where
  "ends_burst engine m r =
     ((yield (mod_s m) \<and> r = (True, m))
      \<or> (\<not> yield (mod_s m) \<and>
          (\<exists>n. keeps_running engine n m \<and>
             (terminal (after_runs engine (Suc n) m) \<or> yield (mod_s (after_runs engine (Suc n) m))) \<and>
             r = (\<not> terminal (after_runs engine (Suc n) m), after_runs engine (Suc n) m))))"

definition loop_entry :: "(nat \<Rightarrow> u32) \<Rightarrow> machine \<Rightarrow> machine" where
  "loop_entry pixel_buffer m = m\<lparr>mod_s := (mod_s m)\<lparr>yield := False, pixels := pixel_buffer\<rparr>\<rparr>"

section \<open>A session to evaluate on\<close>

text \<open>
  The static initialiser of \<^verbatim>\<open>buttons\<close>, and a machine as \<^verbatim>\<open>arduboy_avr_setup\<close> leaves
  it for a 16 MHz engine: the engine running at cycle 0, the controller part and the
  LumaMap zeroed, every button line allocated and pulled up, the timer armed one
  period ahead. The part \<open>frame_part\<close> is the controller after a frame whose first
  byte is 5 (pixels 0 and 2 of column 0 lit), with the cursor back at the origin.
\<close>

definition buttons_init :: "nat \<Rightarrow> button_info" where
  "buttons_init i =
     [\<lparr>btn_id = 0, irq = None, name = ''btn.up'', port_name = CHR ''F'', port_idx = 7, pressed = False\<rparr>,
      \<lparr>btn_id = 1, irq = None, name = ''btn.down'', port_name = CHR ''F'', port_idx = 4, pressed = False\<rparr>,
      \<lparr>btn_id = 2, irq = None, name = ''btn.left'', port_name = CHR ''F'', port_idx = 5, pressed = False\<rparr>,
      \<lparr>btn_id = 3, irq = None, name = ''btn.right'', port_name = CHR ''F'', port_idx = 6, pressed = False\<rparr>,
      \<lparr>btn_id = 4, irq = None, name = ''btn.a'', port_name = CHR ''E'', port_idx = 6, pressed = False\<rparr>,
      \<lparr>btn_id = 5, irq = None, name = ''btn.b'', port_name = CHR ''B'', port_idx = 4, pressed = False\<rparr>] ! i"

definition blank_part :: ssd1306_t where
  "blank_part =
     \<lparr>vram = (\<lambda>p c. 0), flags = {}, cursor_page = 0, cursor_column = 0,
      di_pin = SSD1306_VIRT_INSTRUCTION, contrast_register = 0\<rparr>"

definition frame_part :: ssd1306_t where
  "frame_part =
     blank_part\<lparr>vram := (\<lambda>p c. if p = 0 \<and> c = 0 then 5 else 0),
       flags := {SSD1306_FLAG_DIRTY, SSD1306_FLAG_DISPLAY_ON}, di_pin := SSD1306_VIRT_DATA\<rparr>"

definition session :: machine where
  "session =
     \<lparr>mod_s = \<lparr>avr = Some Addr_engine, ssd1306 = blank_part, yield = False,
               lumamap = (\<lambda>y x. 0), pixels = (\<lambda>k. 0)\<rparr>,
      buttons = (\<lambda>i. (buttons_init i)\<lparr>irq := Some i\<rparr>),
      mcu = \<lparr>core = \<lparr>state = cpu_Running, cycle = 0, frequency = 16000000\<rparr>,
             eeprom_io = \<lparr>eeprom = (\<lambda>i. 255), size = 1024\<rparr>\<rparr>,
      raised = [(Some 0, 1), (Some 1, 1), (Some 2, 1), (Some 3, 1), (Some 4, 1), (Some 5, 1)],
      timer_when = 266656\<rparr>"

text \<open>
  Three module states for the renderer: one whose display is off and whose buffer
  holds 7 in every cell; one whose display is on with the segment remap flag raised
  and a single lit luma bit in the top right corner; and one whose display is on and
  inverted at contrast 255, with a single lit luma bit in the top left corner.
\<close>

definition lit_buffer :: mod_state where
  "lit_buffer = (mod_s session)\<lparr>pixels := (\<lambda>k. 7)\<rparr>"

definition corner_frame :: mod_state where
  "corner_frame =
     (mod_s session)\<lparr>ssd1306 := blank_part\<lparr>flags := {SSD1306_FLAG_DISPLAY_ON, SSD1306_FLAG_SEGMENT_REMAP_0}\<rparr>,
        lumamap := (\<lambda>y x. if y = 0 \<and> x = 127 then 1 else 0)\<rparr>"

definition inverted_frame :: mod_state where
  "inverted_frame =
     (mod_s session)\<lparr>ssd1306 := blank_part\<lparr>flags := {SSD1306_FLAG_DISPLAY_ON, SSD1306_FLAG_DISPLAY_INVERTED},
          contrast_register := 255\<rparr>,
        lumamap := (\<lambda>y x. if y = 0 \<and> x = 0 then 1 else 0)\<rparr>"

text \<open>
  An engine whose timer callback runs 44 cycles after the cycle it was scheduled for
  (266656, one period after 0, at 16 MHz); the machine after \<^verbatim>\<open>arduboy_avr_teardown\<close>;
  an engine that crashes in its first run, and one that runs for a frame period and
  then fires the timer.
\<close>

definition late_engine :: avr_t where
  "late_engine = \<lparr>state = cpu_Running, cycle = 266700, frequency = 16000000\<rparr>"

definition no_session :: machine where
  "no_session = session\<lparr>mod_s := (mod_s session)\<lparr>avr := None\<rparr>\<rparr>"

definition crashing_engine :: "machine \<Rightarrow> engine_action list" where
  "crashing_engine m = [Exec (\<lambda>u. u\<lparr>core := (core u)\<lparr>state := cpu_Crashed\<rparr>\<rparr>)]"

definition frame_engine :: "machine \<Rightarrow> engine_action list" where
  "frame_engine m = [Exec (\<lambda>u. u\<lparr>core := (core u)\<lparr>cycle := cycle (core u) + 266656\<rparr>\<rparr>), Timer_due]"

section \<open>Properties of the display decoder\<close>

text \<open>The three loops of \<^verbatim>\<open>update_lumamap\<close>, innermost first, in closed form.\<close>

lemma fold_unpack_bit:
  "fold (unpack_bit p c) [0..<n] (px, lm) =
     (drop_bit n px,
      \<lambda>r col. if col = c \<and> p * 8 \<le> r \<and> r < p * 8 + n
               then drop_bit (r - p * 8) px AND 1 else lm r col)"
proof (induction n)
  case 0
  show ?case by (auto simp: fun_eq_iff)
next
  case (Suc n)
  have "fold (unpack_bit p c) [0..<Suc n] (px, lm) =
        unpack_bit p c n (fold (unpack_bit p c) [0..<n] (px, lm))"
    by simp
  also have "\<dots> = unpack_bit p c n (drop_bit n px,
      \<lambda>r col. if col = c \<and> p * 8 \<le> r \<and> r < p * 8 + n
               then drop_bit (r - p * 8) px AND 1 else lm r col)"
    by (simp only: Suc.IH)
  also have "\<dots> = (drop_bit (Suc n) px,
      \<lambda>r col. if col = c \<and> p * 8 \<le> r \<and> r < p * 8 + Suc n
               then drop_bit (r - p * 8) px AND 1 else lm r col)"
    by (auto simp: unpack_bit_def set_cell_def fun_eq_iff add.commute less_Suc_eq)
  finally show ?case .
qed

lemma unpack_column_eq:
  "unpack_column part p c lm =
     (\<lambda>r col. if col = c \<and> r div 8 = p then luma_bit part r col else lm r col)"
proof -
  have band: "(p * 8 \<le> r \<and> r < p * 8 + 8) = (r div 8 = p)" for r :: nat
    by auto
  have offs: "r div 8 = p \<Longrightarrow> r - p * 8 = r mod 8" for r :: nat
    by (auto simp: minus_mult_div_eq_mod mult.commute)
  show ?thesis
    unfolding unpack_column_def fold_unpack_bit snd_conv
    by (auto simp: fun_eq_iff band offs luma_bit_def)
qed

lemma fold_unpack_column:
  "fold (unpack_column part p) [0..<n] lm =
     (\<lambda>r col. if col < n \<and> r div 8 = p then luma_bit part r col else lm r col)"
  by (induction n) (auto simp: unpack_column_eq fun_eq_iff less_Suc_eq)

lemma unpack_page_eq:
  "unpack_page part p lm =
     (\<lambda>r col. if col < SSD1306_VIRT_COLUMNS \<and> r div 8 = p then luma_bit part r col else lm r col)"
  by (simp add: unpack_page_def fold_unpack_column)

lemma fold_unpack_page:
  "fold (unpack_page part) [0..<n] lm =
     (\<lambda>r col. if col < SSD1306_VIRT_COLUMNS \<and> r div 8 < n then luma_bit part r col else lm r col)"
  by (induction n) (auto simp: unpack_page_eq fun_eq_iff less_Suc_eq)

lemma update_lumamap_snapshot: "update_lumamap part lm = snapshot part lm"
proof -
  have "(r div 8 < 8) = (r < 64)" for r :: nat by auto
  then show ?thesis
    by (simp add: update_lumamap_def fold_unpack_page SSD1306_VIRT_PAGES_def snapshot_def
        SSD1306_VIRT_COLUMNS_def OLED_HEIGHT_PX_def OLED_WIDTH_PX_def fun_eq_iff)
qed

lemma hook_cases:
  "hook_ssd1306_write_data s =
     (if frame_origin_dirty (ssd1306 s)
      then s\<lparr>lumamap := snapshot (ssd1306 s) (lumamap s),
             ssd1306 := (ssd1306 s)\<lparr>flags := flags (ssd1306 s) - {SSD1306_FLAG_DIRTY}\<rparr>\<rparr>
      else s)"
  by (simp add: hook_ssd1306_write_data_def frame_origin_dirty_def ssd1306_get_flag_def
      ssd1306_set_flag_def update_lumamap_snapshot)

lemma render_screen_lumamap: "lumamap (render_screen s) = lumamap s"
  by (simp add: render_screen_def Let_def)

lemma render_screen_ssd1306: "ssd1306 (render_screen s) = ssd1306 s"
  by (simp add: render_screen_def Let_def)

lemma dispatch_lumamap:
  "lumamap (mod_s (dispatch a m)) =
     (if a = Write_notify \<and> frame_origin_dirty (ssd1306 (mod_s m))
      then snapshot (ssd1306 (mod_s m)) (lumamap (mod_s m)) else lumamap (mod_s m))"
  by (cases a) (simp_all add: hook_cases update_screen_def render_screen_lumamap)

lemma frame_part_origin_dirty: "frame_origin_dirty frame_part"
  by (simp add: frame_part_def blank_part_def frame_origin_dirty_def)

lemma snapshot_frame_part: "snapshot frame_part lm 2 0 = 1"
  by (simp add: frame_part_def snapshot_def luma_bit_def OLED_HEIGHT_PX_def OLED_WIDTH_PX_def)

lemma session_display_frame_part:
  "ssd1306 (mod_s (fold dispatch [Display (\<lambda>_. frame_part)] session)) = frame_part"
  by (simp add: session_def)

text \<open>
  C1. Whatever the engine has done before (the actions \<open>acts\<close>), its next action
  changes the LumaMap only if it is a write notification that finds the controller
  on the data channel with the cursor at page 0, column 0, and the dirty flag set;
  that notification overwrites the LumaMap with the unpacked display memory. The hook
  does nothing at all on a notification that does not qualify, and on one that does
  it takes the snapshot and clears the dirty flag, leaving every other field. (A
  snapshot of a display memory that the LumaMap already shows rewrites it with the
  same contents.)
\<close>

theorem decoder_snapshot_iff_origin_and_dirty:
  "lumamap (mod_s (fold dispatch (acts @ [a]) m)) =
     (if a = Write_notify \<and> frame_origin_dirty (ssd1306 (mod_s (fold dispatch acts m)))
      then snapshot (ssd1306 (mod_s (fold dispatch acts m))) (lumamap (mod_s (fold dispatch acts m)))
      else lumamap (mod_s (fold dispatch acts m)))
   \<and> hook_ssd1306_write_data s =
       (if frame_origin_dirty (ssd1306 s)
        then s\<lparr>lumamap := snapshot (ssd1306 s) (lumamap s),
               ssd1306 := (ssd1306 s)\<lparr>flags := flags (ssd1306 s) - {SSD1306_FLAG_DIRTY}\<rparr>\<rparr>
        else s)
   \<and> (lumamap (hook_ssd1306_write_data s) \<noteq> lumamap s \<longrightarrow> frame_origin_dirty (ssd1306 s))"
  by (simp add: dispatch_lumamap hook_cases)

theorem decoder_snapshot_witness:
  "lumamap (mod_s (fold dispatch ([Display (\<lambda>_. frame_part)] @ [Write_notify]) session)) 2 0 = 1
   \<and> lumamap (hook_ssd1306_write_data
        ((mod_s session)\<lparr>ssd1306 := frame_part\<lparr>cursor_column := 1\<rparr>\<rparr>)) 2 0 = 0"
proof -
  note th = decoder_snapshot_iff_origin_and_dirty [where a = Write_notify
      and acts = "[Display (\<lambda>_. frame_part)]" and m = session
      and s = "(mod_s session)\<lparr>ssd1306 := frame_part\<lparr>cursor_column := 1\<rparr>\<rparr>"]
  have "\<not> frame_origin_dirty (frame_part\<lparr>cursor_column := 1\<rparr>)"
    by (simp add: frame_origin_dirty_def)
  with th have "hook_ssd1306_write_data ((mod_s session)\<lparr>ssd1306 := frame_part\<lparr>cursor_column := 1\<rparr>\<rparr>)
      = (mod_s session)\<lparr>ssd1306 := frame_part\<lparr>cursor_column := 1\<rparr>\<rparr>"
    by simp
  then have off_origin:
    "lumamap (hook_ssd1306_write_data
       ((mod_s session)\<lparr>ssd1306 := frame_part\<lparr>cursor_column := 1\<rparr>\<rparr>)) 2 0 = 0"
    by (simp add: session_def)
  from th have "lumamap (mod_s (fold dispatch ([Display (\<lambda>_. frame_part)] @ [Write_notify]) session))
      = snapshot frame_part (lumamap (mod_s (fold dispatch [Display (\<lambda>_. frame_part)] session)))"
    by (simp only: session_display_frame_part frame_part_origin_dirty simp_thms if_True)
  then have at_origin:
    "lumamap (mod_s (fold dispatch ([Display (\<lambda>_. frame_part)] @ [Write_notify]) session)) 2 0 = 1"
    by (simp only: snapshot_frame_part)
  from at_origin off_origin show ?thesis by (rule conjI)
qed

lemma snapshot_cells:
  "y < OLED_HEIGHT_PX \<Longrightarrow> x < OLED_WIDTH_PX \<Longrightarrow> snapshot part lm y x = luma_bit part y x"
  by (simp add: snapshot_def)

lemma fold_dispatch_snoc: "fold dispatch (acts @ [a]) m = dispatch a (fold dispatch acts m)"
  by simp

lemma lumamap_whole_frames:
  "lumamap (mod_s (fold dispatch acts m)) = lumamap (mod_s m)
   \<or> (\<exists>pre suf. acts = pre @ suf \<and>
        (\<forall>y<OLED_HEIGHT_PX. \<forall>x<OLED_WIDTH_PX.
           lumamap (mod_s (fold dispatch acts m)) y x = luma_bit (ssd1306 (mod_s (fold dispatch pre m))) y x))"
proof (induction acts rule: rev_induct)
  case Nil
  show ?case by simp
next
  case (snoc a acts)
  let ?before = "fold dispatch acts m"
  show ?case
  proof (cases "a = Write_notify \<and> frame_origin_dirty (ssd1306 (mod_s ?before))")
    case True
    then have "lumamap (mod_s (fold dispatch (acts @ [a]) m)) =
        snapshot (ssd1306 (mod_s ?before)) (lumamap (mod_s ?before))"
      unfolding fold_dispatch_snoc dispatch_lumamap by simp
    then have "\<forall>y<OLED_HEIGHT_PX. \<forall>x<OLED_WIDTH_PX.
        lumamap (mod_s (fold dispatch (acts @ [a]) m)) y x = luma_bit (ssd1306 (mod_s ?before)) y x"
      by (simp add: snapshot_cells)
    then show ?thesis by blast
  next
    case False
    then have same: "lumamap (mod_s (fold dispatch (acts @ [a]) m)) = lumamap (mod_s ?before)"
      unfolding fold_dispatch_snoc dispatch_lumamap by auto
    from snoc.IH show ?thesis
    proof
      assume "lumamap (mod_s ?before) = lumamap (mod_s m)"
      with same show ?thesis by simp
    next
      assume "\<exists>pre suf. acts = pre @ suf \<and>
        (\<forall>y<OLED_HEIGHT_PX. \<forall>x<OLED_WIDTH_PX.
           lumamap (mod_s ?before) y x = luma_bit (ssd1306 (mod_s (fold dispatch pre m))) y x)"
      then obtain pre suf where "acts = pre @ suf"
        and cells: "\<forall>y<OLED_HEIGHT_PX. \<forall>x<OLED_WIDTH_PX.
           lumamap (mod_s ?before) y x = luma_bit (ssd1306 (mod_s (fold dispatch pre m))) y x"
        by blast
      then have "acts @ [a] = pre @ (suf @ [a])" by simp
      with cells same show ?thesis by metis
    qed
  qed
qed

text \<open>
  C8. The LumaMap is only ever overwritten as a whole. An action of the engine that
  changes the LumaMap at all leaves in every one of its 64 x 128 cells the luma bit
  that the display memory holds for that cell at that moment (bit \<open>y mod 8\<close> of the
  byte of page \<open>y div 8\<close>, column \<open>x\<close>); \<^verbatim>\<open>update_lumamap\<close> writes every cell,
  whatever the LumaMap held; and after any sequence of actions the LumaMap is either
  the one the sequence started with or, cell for cell, the display memory as it was
  at one moment of the sequence, never a mixture of two.
\<close>

theorem lumamap_never_partially_overwritten:
  "(lumamap (mod_s (dispatch a m)) \<noteq> lumamap (mod_s m) \<longrightarrow>
      (\<forall>y<OLED_HEIGHT_PX. \<forall>x<OLED_WIDTH_PX.
         lumamap (mod_s (dispatch a m)) y x = luma_bit (ssd1306 (mod_s m)) y x))
   \<and> (\<forall>y<OLED_HEIGHT_PX. \<forall>x<OLED_WIDTH_PX. update_lumamap part lm y x = luma_bit part y x)
   \<and> (lumamap (mod_s (fold dispatch acts m)) = lumamap (mod_s m)
       \<or> (\<exists>pre suf. acts = pre @ suf \<and>
            (\<forall>y<OLED_HEIGHT_PX. \<forall>x<OLED_WIDTH_PX.
               lumamap (mod_s (fold dispatch acts m)) y x =
                 luma_bit (ssd1306 (mod_s (fold dispatch pre m))) y x)))"
proof -
  have one: "lumamap (mod_s (dispatch a m)) \<noteq> lumamap (mod_s m) \<longrightarrow>
      (\<forall>y<OLED_HEIGHT_PX. \<forall>x<OLED_WIDTH_PX.
         lumamap (mod_s (dispatch a m)) y x = luma_bit (ssd1306 (mod_s m)) y x)"
    by (simp add: dispatch_lumamap snapshot_cells)
  have all: "\<forall>y<OLED_HEIGHT_PX. \<forall>x<OLED_WIDTH_PX. update_lumamap part lm y x = luma_bit part y x"
    by (simp add: update_lumamap_snapshot snapshot_cells)
  from one all lumamap_whole_frames [of acts m] show ?thesis by blast
qed

theorem lumamap_full_frame_witness:
  "update_lumamap frame_part (\<lambda>y x. 9) 0 0 = 1 \<and> update_lumamap frame_part (\<lambda>y x. 9) 2 0 = 1
   \<and> update_lumamap frame_part (\<lambda>y x. 9) 63 127 = 0"
proof -
  note cells = lumamap_never_partially_overwritten [where part = frame_part and lm = "\<lambda>y x. 9",
      THEN conjunct2, THEN conjunct1, rule_format]
  have "update_lumamap frame_part (\<lambda>y x. 9) 0 0 = luma_bit frame_part 0 0"
    by (rule cells) (simp_all add: OLED_HEIGHT_PX_def OLED_WIDTH_PX_def)
  moreover have "update_lumamap frame_part (\<lambda>y x. 9) 2 0 = luma_bit frame_part 2 0"
    by (rule cells) (simp_all add: OLED_HEIGHT_PX_def OLED_WIDTH_PX_def)
  moreover have "update_lumamap frame_part (\<lambda>y x. 9) 63 127 = luma_bit frame_part 63 127"
    by (rule cells) (simp_all add: OLED_HEIGHT_PX_def OLED_WIDTH_PX_def)
  ultimately show ?thesis
    by (simp add: luma_bit_def frame_part_def)
qed

section \<open>Properties of the frame renderer\<close>

text \<open>
  One row of the renderer, left to right and right to left, then the whole frame, top to
  bottom and bottom to top: each loop in closed form, for any starting offset \<open>k\<close>.
\<close>

lemma render_row_unfold:
  "render_row lm fg bg y vx x (k, buf) =
     (if 0 \<le> x \<and> x < int OLED_WIDTH_PX \<and> vx \<noteq> 0
      then render_row lm fg bg y vx (x + vx) (Suc k, buf(k := colour_of fg bg (lm (nat y) (nat x))))
      else (k, buf))"
  by (subst render_row.simps) (simp add: colour_of_def)

lemma render_row_forward:
  "x \<le> OLED_WIDTH_PX \<Longrightarrow>
   render_row lm fg bg y 1 (int x) (k, buf) =
     (k + (OLED_WIDTH_PX - x),
      \<lambda>j. if k \<le> j \<and> j < k + (OLED_WIDTH_PX - x)
           then colour_of fg bg (lm (nat y) (x + (j - k))) else buf j)"
proof (induction "OLED_WIDTH_PX - x" arbitrary: x k buf)
  case 0
  then have "x = OLED_WIDTH_PX" by simp
  then show ?case by (subst render_row_unfold) (auto simp: fun_eq_iff)
next
  case (Suc n)
  then have lt: "x < OLED_WIDTH_PX" and n: "n = OLED_WIDTH_PX - Suc x" by simp_all
  have "render_row lm fg bg y 1 (int x) (k, buf) =
        render_row lm fg bg y 1 (int (Suc x))
          (Suc k, buf(k := colour_of fg bg (lm (nat y) x)))"
    using lt by (subst render_row_unfold) (simp add: add.commute)
  also have "\<dots> = (Suc k + (OLED_WIDTH_PX - Suc x),
      \<lambda>j. if Suc k \<le> j \<and> j < Suc k + (OLED_WIDTH_PX - Suc x)
           then colour_of fg bg (lm (nat y) (Suc x + (j - Suc k)))
           else (buf(k := colour_of fg bg (lm (nat y) x))) j)"
    using lt by (intro Suc.hyps(1) n) simp
  also have "\<dots> = (k + (OLED_WIDTH_PX - x),
      \<lambda>j. if k \<le> j \<and> j < k + (OLED_WIDTH_PX - x)
           then colour_of fg bg (lm (nat y) (x + (j - k))) else buf j)"
    using lt by (auto simp: fun_eq_iff intro!: arg_cong [where f = "\<lambda>i. colour_of fg bg (lm (nat y) i)"])
  finally show ?case .
qed

lemma render_row_backward:
  "x \<le> OLED_WIDTH_PX \<Longrightarrow>
   render_row lm fg bg y (- 1) (int x - 1) (k, buf) =
     (k + x,
      \<lambda>j. if k \<le> j \<and> j < k + x
           then colour_of fg bg (lm (nat y) (x - 1 - (j - k))) else buf j)"
proof (induction x arbitrary: k buf)
  case 0
  show ?case by (subst render_row_unfold) (auto simp: fun_eq_iff)
next
  case (Suc x)
  then have lt: "x < OLED_WIDTH_PX" by simp
  have "render_row lm fg bg y (- 1) (int (Suc x) - 1) (k, buf) =
        render_row lm fg bg y (- 1) (int x - 1)
          (Suc k, buf(k := colour_of fg bg (lm (nat y) x)))"
    using lt by (subst render_row_unfold) simp
  also have "\<dots> = (Suc k + x,
      \<lambda>j. if Suc k \<le> j \<and> j < Suc k + x
           then colour_of fg bg (lm (nat y) (x - 1 - (j - Suc k)))
           else (buf(k := colour_of fg bg (lm (nat y) x))) j)"
    using lt by (intro Suc.IH) simp
  also have "\<dots> = (k + Suc x,
      \<lambda>j. if k \<le> j \<and> j < k + Suc x
           then colour_of fg bg (lm (nat y) (Suc x - 1 - (j - k))) else buf j)"
    by (auto simp: fun_eq_iff intro!: arg_cong [where f = "\<lambda>i. colour_of fg bg (lm (nat y) i)"])
  finally show ?case .
qed


lemma render_row_full:
  "render_row lm fg bg y (if remap then - 1 else 1) (if remap then int OLED_WIDTH_PX - 1 else 0) (k, buf) =
     (k + OLED_WIDTH_PX,
      \<lambda>j. if k \<le> j \<and> j < k + OLED_WIDTH_PX
           then colour_of fg bg (lm (nat y) (mirrored remap OLED_WIDTH_PX (j - k))) else buf j)"
  using render_row_forward [of 0 lm fg bg y k buf]
    render_row_backward [of OLED_WIDTH_PX lm fg bg y k buf]
  by (cases remap) (simp_all add: mirrored_def cong del: if_weak_cong)

lemma render_rows_unfold:
  "render_rows lm fg bg (if remap then int OLED_WIDTH_PX - 1 else 0) (if remap then - 1 else 1) vy y (k, buf) =
     (if 0 \<le> y \<and> y < int OLED_HEIGHT_PX \<and> vy \<noteq> 0
      then render_rows lm fg bg (if remap then int OLED_WIDTH_PX - 1 else 0) (if remap then - 1 else 1) vy (y + vy)
        (k + OLED_WIDTH_PX,
         \<lambda>j. if k \<le> j \<and> j < k + OLED_WIDTH_PX
           then colour_of fg bg (lm (nat y) (mirrored remap OLED_WIDTH_PX (j - k))) else buf j)
      else (k, buf))"
  by (subst render_rows.simps) (simp only: render_row_full)

lemma width_pos: "0 < OLED_WIDTH_PX"
  by (simp add: OLED_WIDTH_PX_def)

lemma render_rows_forward:
  "y \<le> OLED_HEIGHT_PX \<Longrightarrow>
   render_rows lm fg bg (if remap then int OLED_WIDTH_PX - 1 else 0) (if remap then - 1 else 1) 1 (int y) (k, buf) =
     (k + (OLED_HEIGHT_PX - y) * OLED_WIDTH_PX,
      \<lambda>j. if k \<le> j \<and> j < k + (OLED_HEIGHT_PX - y) * OLED_WIDTH_PX
           then colour_of fg bg (lm (y + (j - k) div OLED_WIDTH_PX)
                  (mirrored remap OLED_WIDTH_PX ((j - k) mod OLED_WIDTH_PX)))
           else buf j)"
proof (induction "OLED_HEIGHT_PX - y" arbitrary: y k buf)
  case 0
  then have "y = OLED_HEIGHT_PX" by simp
  then show ?case by (subst render_rows_unfold) (auto simp: fun_eq_iff)
next
  case (Suc n)
  then have lt: "y < OLED_HEIGHT_PX" and n: "n = OLED_HEIGHT_PX - Suc y" by simp_all
  let ?W = OLED_WIDTH_PX
  let ?row = "\<lambda>j. if k \<le> j \<and> j < k + ?W
           then colour_of fg bg (lm y (mirrored remap ?W (j - k))) else buf j"
  have "render_rows lm fg bg (if remap then int ?W - 1 else 0) (if remap then - 1 else 1) 1 (int y) (k, buf) =
        render_rows lm fg bg (if remap then int ?W - 1 else 0) (if remap then - 1 else 1) 1 (int (Suc y))
          (k + ?W, ?row)"
    using lt by (subst render_rows_unfold) (simp add: add.commute cong del: if_weak_cong)
  also have "\<dots> = (k + ?W + (OLED_HEIGHT_PX - Suc y) * ?W,
      \<lambda>j. if k + ?W \<le> j \<and> j < k + ?W + (OLED_HEIGHT_PX - Suc y) * ?W
           then colour_of fg bg (lm (Suc y + (j - (k + ?W)) div ?W)
                  (mirrored remap ?W ((j - (k + ?W)) mod ?W)))
           else ?row j)"
    using lt by (intro Suc.hyps(1) n) simp
  also have "\<dots> = (k + (OLED_HEIGHT_PX - y) * ?W,
      \<lambda>j. if k \<le> j \<and> j < k + (OLED_HEIGHT_PX - y) * ?W
           then colour_of fg bg (lm (y + (j - k) div ?W) (mirrored remap ?W ((j - k) mod ?W)))
           else buf j)" (is "(?a, ?f) = (?b, ?g)")
  proof -
    have "OLED_HEIGHT_PX - y = Suc (OLED_HEIGHT_PX - Suc y)"
      using lt by simp
    then have hw: "(OLED_HEIGHT_PX - y) * ?W = ?W + (OLED_HEIGHT_PX - Suc y) * ?W"
      by (simp only: mult_Suc)
    have ab: "?a = ?b"
      by (simp only: hw add.assoc)
    have "?f j = ?g j" for j
    proof -
      consider "j < k" | "k \<le> j" "j < k + ?W" | "k + ?W \<le> j" by linarith
      then show ?thesis
      proof cases
        case 1
        then show ?thesis by simp
      next
        case 2
        then have "(j - k) div ?W = 0" "(j - k) mod ?W = j - k" by simp_all
        with 2 show ?thesis by (simp add: hw)
      next
        case 3
        then have d: "(j - k) div ?W = Suc ((j - (k + ?W)) div ?W)"
          using le_div_geq [of ?W "j - k"] width_pos by simp
        from 3 have m: "(j - k) mod ?W = (j - (k + ?W)) mod ?W"
          using le_mod_geq [of ?W "j - k"] by simp
        from 3 show ?thesis by (simp add: d m hw)
      qed
    qed
    then have "?f = ?g" by (rule ext)
    with ab show ?thesis by simp
  qed
  finally show ?case .
qed

lemma render_rows_backward:
  "y \<le> OLED_HEIGHT_PX \<Longrightarrow>
   render_rows lm fg bg (if remap then int OLED_WIDTH_PX - 1 else 0) (if remap then - 1 else 1) (- 1) (int y - 1) (k, buf) =
     (k + y * OLED_WIDTH_PX,
      \<lambda>j. if k \<le> j \<and> j < k + y * OLED_WIDTH_PX
           then colour_of fg bg (lm (y - 1 - (j - k) div OLED_WIDTH_PX)
                  (mirrored remap OLED_WIDTH_PX ((j - k) mod OLED_WIDTH_PX)))
           else buf j)"
proof (induction y arbitrary: k buf)
  case 0
  show ?case by (subst render_rows_unfold) (auto simp: fun_eq_iff)
next
  case (Suc y)
  then have lt: "y < OLED_HEIGHT_PX" by simp
  let ?W = OLED_WIDTH_PX
  let ?row = "\<lambda>j. if k \<le> j \<and> j < k + ?W
           then colour_of fg bg (lm y (mirrored remap ?W (j - k))) else buf j"
  have "render_rows lm fg bg (if remap then int ?W - 1 else 0) (if remap then - 1 else 1) (- 1) (int (Suc y) - 1) (k, buf) =
        render_rows lm fg bg (if remap then int ?W - 1 else 0) (if remap then - 1 else 1) (- 1) (int y - 1)
          (k + ?W, ?row)"
    using lt by (subst render_rows_unfold) (simp cong del: if_weak_cong)
  also have "\<dots> = (k + ?W + y * ?W,
      \<lambda>j. if k + ?W \<le> j \<and> j < k + ?W + y * ?W
           then colour_of fg bg (lm (y - 1 - (j - (k + ?W)) div ?W)
                  (mirrored remap ?W ((j - (k + ?W)) mod ?W)))
           else ?row j)"
    using lt by (intro Suc.IH) simp
  also have "\<dots> = (k + Suc y * ?W,
      \<lambda>j. if k \<le> j \<and> j < k + Suc y * ?W
           then colour_of fg bg (lm (Suc y - 1 - (j - k) div ?W) (mirrored remap ?W ((j - k) mod ?W)))
           else buf j)" (is "(?a, ?f) = (?b, ?g)")
  proof -
    have ab: "?a = ?b" by simp
    have "?f j = ?g j" for j
    proof -
      consider "j < k" | "k \<le> j" "j < k + ?W" | "k + ?W \<le> j" by linarith
      then show ?thesis
      proof cases
        case 1
        then show ?thesis by simp
      next
        case 2
        then have "(j - k) div ?W = 0" "(j - k) mod ?W = j - k" by simp_all
        with 2 show ?thesis by simp
      next
        case 3
        then have d: "(j - k) div ?W = Suc ((j - (k + ?W)) div ?W)"
          using le_div_geq [of ?W "j - k"] width_pos by simp
        from 3 have m: "(j - k) mod ?W = (j - (k + ?W)) mod ?W"
          using le_mod_geq [of ?W "j - k"] by simp
        from 3 show ?thesis by (simp add: d m)
      qed
    qed
    then have "?f = ?g" by (rule ext)
    with ab show ?thesis by simp
  qed
  finally show ?case .
qed

text \<open>The bytes of a colour that the macro \<^verbatim>\<open>RGB\<close> packs.\<close>

lemma alpha_mask: "(0xFF000000 :: u32) = push_bit 24 (mask 8)"
  by (simp add: mask_eq_exp_minus_1)

lemma byte_mask: "(255 :: u32) = mask 8"
  by (simp add: mask_eq_exp_minus_1)

lemma packed_alpha:
  fixes a b c :: u8
  shows "drop_bit 24 (0xFF000000 OR push_bit 16 (ucast a) OR push_bit 8 (ucast b) OR (ucast c :: u32)) = 255"
  unfolding alpha_mask byte_mask
  by (rule bit_word_eqI) (auto simp: bit_simps dest: bit_imp_le_length)

lemma packed_red:
  fixes a b c :: u8
  shows "drop_bit 16 (0xFF000000 OR push_bit 16 (ucast a) OR push_bit 8 (ucast b) OR (ucast c :: u32)) AND 255 = ucast a"
  unfolding alpha_mask byte_mask
  by (rule bit_word_eqI) (auto simp: bit_simps dest: bit_imp_le_length)

lemma packed_green:
  fixes a b c :: u8
  shows "drop_bit 8 (0xFF000000 OR push_bit 16 (ucast a) OR push_bit 8 (ucast b) OR (ucast c :: u32)) AND 255 = ucast b"
  unfolding alpha_mask byte_mask
  by (rule bit_word_eqI) (auto simp: bit_simps dest: bit_imp_le_length)

lemma packed_blue:
  fixes a b c :: u8
  shows "(0xFF000000 OR push_bit 16 (ucast a) OR push_bit 8 (ucast b) OR (ucast c :: u32)) AND 255 = ucast c"
  unfolding alpha_mask byte_mask
  by (rule bit_word_eqI) (auto simp: bit_simps dest: bit_imp_le_length)

lemma unat_byte_bound: "unat (c :: u8) < 256"
  using unsigned_less [of c, where ?'a = nat] by simp

lemma unat_ucast_byte: "unat (ucast (a :: u8) :: u32) = unat a"
  using unat_byte_bound [of a] by (simp add: unsigned_ucast_eq take_bit_nat_eq_self)

lemma argb_RGB:
  "argb (RGB r g b) = (255, unat (to_uint8 r), unat (to_uint8 g), unat (to_uint8 b))"
  unfolding argb_def RGB_def
  by (simp only: packed_alpha packed_red packed_green packed_blue unat_ucast_byte) simp

lemma opacity_scaled: "255 * contrast_to_opacity c = real (255 * (unat c + 256)) / 512"
  by (simp add: contrast_to_opacity_def field_simps)

lemma opacity_floor: "\<lfloor>255 * contrast_to_opacity c\<rfloor> = int ((255 * (unat c + 256)) div 512)"
  unfolding opacity_scaled
  by (metis floor_divide_of_nat_eq of_nat_numeral)

lemma channel_bound: "(255 * (unat (c :: u8) + 256)) div 512 < 255"
  using unat_byte_bound [of c] by simp

lemma to_uint8_opacity:
  "unat (to_uint8 (255 * contrast_to_opacity c)) = (255 * (unat c + 256)) div 512"
proof -
  have "0 \<le> contrast_to_opacity c"
    using of_nat_0_le_iff [of "unat c", where ?'a = real] by (simp add: contrast_to_opacity_def)
  then have nonneg: "0 \<le> 255 * contrast_to_opacity c"
    by simp
  have w: "to_uint8 (255 * contrast_to_opacity c) = word_of_nat ((255 * (unat c + 256)) div 512)"
    using nonneg by (simp add: to_uint8_def opacity_floor del: of_nat_mult of_nat_add)
  have "(255 * (unat c + 256)) div 512 < 2 ^ LENGTH(8)"
    using channel_bound [of c] by simp
  with w [symmetric] show ?thesis
    by (rule of_nat_inverse)
qed

text \<open>
  Every number the renderer computes in floating point is a multiple of \<open>1/512\<close> with
  a numerator below \<open>2 ^ 17\<close>, and the value converted to a byte lies in its range.
\<close>

lemma opacity_exact:
  "contrast_to_opacity c * 512 = real (unat c + 256)
   \<and> 255 * contrast_to_opacity c * 512 = real (255 * (unat c + 256))
   \<and> 255 * (unat c + 256) < 2 ^ 17
   \<and> 0 \<le> 255 * contrast_to_opacity c \<and> 255 * contrast_to_opacity c < 255"
proof -
  have b: "unat c < 256" by (rule unat_byte_bound)
  have nn: "0 \<le> real (unat c)" by (rule of_nat_0_le_iff)
  have lt: "real (unat c) < 256" using b by (simp only: of_nat_less_numeral_iff) 
  have o: "contrast_to_opacity c = (real (unat c) + 256) / 512"
    by (simp add: contrast_to_opacity_def field_simps del: of_nat_unat)
  show ?thesis
    using b nn lt unfolding o by (simp del: of_nat_unat)
qed

text \<open>The buffer after \<^verbatim>\<open>render_screen\<close> with the display on.\<close>

lemma render_screen_on:
  assumes "SSD1306_FLAG_DISPLAY_ON \<in> flags (ssd1306 s)"
  shows "pixels (render_screen s) =
     (\<lambda>j. if j < OLED_HEIGHT_PX * OLED_WIDTH_PX
          then pixel_colour (ssd1306 s)
                 (lumamap s (source_row (ssd1306 s) (j div OLED_WIDTH_PX))
                            (source_column (ssd1306 s) (j mod OLED_WIDTH_PX)))
          else pixels s j)"
proof (cases "SSD1306_FLAG_COM_SCAN_NORMAL \<in> flags (ssd1306 s)")
  case True
  show ?thesis
    using assms True
      render_rows_backward [of OLED_HEIGHT_PX "lumamap s" _ _ "SSD1306_FLAG_SEGMENT_REMAP_0 \<in> flags (ssd1306 s)" 0 "pixels s"]
    by (simp add: render_screen_def Let_def ssd1306_get_flag_def pixel_colour_def source_row_def
        source_column_def mirrored_def fun_eq_iff)
next
  case False
  show ?thesis
    using assms False
      render_rows_forward [of 0 "lumamap s" _ _ "SSD1306_FLAG_SEGMENT_REMAP_0 \<in> flags (ssd1306 s)" 0 "pixels s"]
    by (simp add: render_screen_def Let_def ssd1306_get_flag_def pixel_colour_def source_row_def
        source_column_def mirrored_def fun_eq_iff)
qed

text \<open>
  C5. With the display power flag off, \<^verbatim>\<open>render_screen\<close> returns at once: the module
  state, and with it every element of the pixel buffer, is as before, whatever the
  LumaMap, the other flags and the buffer hold. The same is true of the buffer across
  the scheduler callback that calls the renderer.
\<close>

theorem renderer_display_off_leaves_buffer:
  "SSD1306_FLAG_DISPLAY_ON \<notin> flags (ssd1306 s) \<Longrightarrow>
     render_screen s = s \<and> pixels (render_screen s) = pixels s
     \<and> pixels (snd (update_screen a w s)) = pixels s"
  by (simp add: render_screen_def update_screen_def ssd1306_get_flag_def)

theorem renderer_display_off_witness:
  "pixels (render_screen lit_buffer) = (\<lambda>k. 7) \<and> pixels (render_screen lit_buffer) 3 = 7"
  using renderer_display_off_leaves_buffer [of lit_buffer]
  by (simp add: lit_buffer_def session_def blank_part_def)

text \<open>
  One cell of the buffer after \<^verbatim>\<open>render_screen\<close> with the display on, and the bytes
  of the colours it can hold.
\<close>

lemma render_screen_cell:
  assumes on: "SSD1306_FLAG_DISPLAY_ON \<in> flags (ssd1306 s)"
    and r: "r < OLED_HEIGHT_PX" and c: "c < OLED_WIDTH_PX"
  shows "pixels (render_screen s) (r * OLED_WIDTH_PX + c) =
      pixel_colour (ssd1306 s) (lumamap s (source_row (ssd1306 s) r) (source_column (ssd1306 s) c))"
proof -
  have "r * OLED_WIDTH_PX + c < OLED_HEIGHT_PX * OLED_WIDTH_PX"
    using r c by (simp add: OLED_HEIGHT_PX_def OLED_WIDTH_PX_def)
  moreover have "(r * OLED_WIDTH_PX + c) div OLED_WIDTH_PX = r"
    "(r * OLED_WIDTH_PX + c) mod OLED_WIDTH_PX = c"
    using c by simp_all
  ultimately show ?thesis
    by (simp add: render_screen_on [OF on])
qed

lemma argb_BLACK: "argb BLACK = (255, 0, 0, 0)"
  by (simp add: BLACK_def argb_RGB to_uint8_def)

lemma argb_gray:
  "argb (get_fg_colour 0 (contrast_to_opacity c)) =
      (255, nat \<lfloor>255 * contrast_to_opacity c\<rfloor>, nat \<lfloor>255 * contrast_to_opacity c\<rfloor>,
       nat \<lfloor>255 * contrast_to_opacity c\<rfloor>)"
  by (simp add: get_fg_colour_def argb_RGB to_uint8_opacity opacity_floor del: of_nat_mult of_nat_add)

lemma pixel_colour_cases:
  "pixel_colour part v =
     (if v \<noteq> 0
      then get_fg_colour (if SSD1306_FLAG_DISPLAY_INVERTED \<in> flags part then 1 else 0)
             (contrast_to_opacity (contrast_register part))
      else get_bg_colour (if SSD1306_FLAG_DISPLAY_INVERTED \<in> flags part then 1 else 0)
             (contrast_to_opacity (contrast_register part)))"
  by (simp add: pixel_colour_def colour_of_def Let_def)

lemma argb_pixel_colour:
  "argb (pixel_colour part v) =
     (if (v \<noteq> 0) = (SSD1306_FLAG_DISPLAY_INVERTED \<in> flags part) then (255, 0, 0, 0)
      else (255, nat \<lfloor>255 * contrast_to_opacity (contrast_register part)\<rfloor>,
                 nat \<lfloor>255 * contrast_to_opacity (contrast_register part)\<rfloor>,
                 nat \<lfloor>255 * contrast_to_opacity (contrast_register part)\<rfloor>))"
  by (simp add: pixel_colour_cases get_fg_colour_def [of 1] get_bg_colour_def argb_BLACK argb_gray)

text \<open>
  C6. The opacity of a contrast \<open>c\<close> is \<open>c / 512 + 1/2\<close>: exactly \<open>1/2\<close> for 0 and
  \<open>255/512 + 1/2\<close> for 255. The foreground is opaque black \<open>(0, 0, 0)\<close> whenever
  invert is non-zero, for every opacity; otherwise its red, green and blue bytes are
  all \<open>255 * opacity\<close> with the fraction dropped (127 for contrast 0). The background
  is black when invert is zero and the non-inverted foreground otherwise. These are
  the colours \<^verbatim>\<open>render_screen\<close> paints with: with the display on, every cell of the
  frame holds the foreground colour where its luma bit is set and the background
  colour elsewhere, both computed from the controller's contrast register and with
  invert being the controller's invert flag. So a cell is opaque black when its luma
  bit is set and the display is inverted, or clear and the display is not inverted,
  and otherwise the gray of \<open>255 * (contrast_register / 512 + 1/2)\<close>.
\<close>

theorem renderer_opacity_and_colours:
  "contrast_to_opacity c = real (unat c) / 512 + 1 / 2
   \<and> contrast_to_opacity 0 = 1 / 2
   \<and> contrast_to_opacity 255 = 255 / 512 + 1 / 2
   \<and> argb (get_fg_colour invert (contrast_to_opacity c)) =
       (if invert \<noteq> 0 then (255, 0, 0, 0)
        else (255, nat \<lfloor>255 * contrast_to_opacity c\<rfloor>, nat \<lfloor>255 * contrast_to_opacity c\<rfloor>,
              nat \<lfloor>255 * contrast_to_opacity c\<rfloor>))
   \<and> argb (get_bg_colour invert (contrast_to_opacity c)) =
       (if invert \<noteq> 0
        then (255, nat \<lfloor>255 * contrast_to_opacity c\<rfloor>, nat \<lfloor>255 * contrast_to_opacity c\<rfloor>,
              nat \<lfloor>255 * contrast_to_opacity c\<rfloor>)
        else (255, 0, 0, 0))
   \<and> get_fg_colour invert opacity = (if invert \<noteq> 0 then BLACK else get_fg_colour 0 opacity)
   \<and> get_bg_colour invert opacity = (if invert \<noteq> 0 then get_fg_colour 0 opacity else BLACK)
   \<and> argb BLACK = (255, 0, 0, 0)
   \<and> (SSD1306_FLAG_DISPLAY_ON \<in> flags (ssd1306 s) \<longrightarrow>
        (\<forall>r<OLED_HEIGHT_PX. \<forall>c<OLED_WIDTH_PX.
           pixels (render_screen s) (r * OLED_WIDTH_PX + c) =
             (if lumamap s (source_row (ssd1306 s) r) (source_column (ssd1306 s) c) \<noteq> 0
              then get_fg_colour (if SSD1306_FLAG_DISPLAY_INVERTED \<in> flags (ssd1306 s) then 1 else 0)
                     (contrast_to_opacity (contrast_register (ssd1306 s)))
              else get_bg_colour (if SSD1306_FLAG_DISPLAY_INVERTED \<in> flags (ssd1306 s) then 1 else 0)
                     (contrast_to_opacity (contrast_register (ssd1306 s))))
           \<and> argb (pixels (render_screen s) (r * OLED_WIDTH_PX + c)) =
             (if (lumamap s (source_row (ssd1306 s) r) (source_column (ssd1306 s) c) \<noteq> 0)
                   = (SSD1306_FLAG_DISPLAY_INVERTED \<in> flags (ssd1306 s))
              then (255, 0, 0, 0)
              else (255, nat \<lfloor>255 * contrast_to_opacity (contrast_register (ssd1306 s))\<rfloor>,
                         nat \<lfloor>255 * contrast_to_opacity (contrast_register (ssd1306 s))\<rfloor>,
                         nat \<lfloor>255 * contrast_to_opacity (contrast_register (ssd1306 s))\<rfloor>))))"
  (is "?op \<and> ?lo \<and> ?hi \<and> ?fg \<and> ?bg \<and> ?fgsel \<and> ?bgsel \<and> ?black \<and> ?painted")
proof -
  have op: ?op by (simp add: contrast_to_opacity_def)
  have lo: ?lo and hi: ?hi by (simp_all add: contrast_to_opacity_def)
  have fgsel: ?fgsel by (simp add: get_fg_colour_def)
  have bgsel: ?bgsel by (simp add: get_bg_colour_def)
  have sel: "get_fg_colour invert x = (if invert \<noteq> 0 then BLACK else get_fg_colour 0 x)" for x
    by (simp add: get_fg_colour_def)
  have fg: ?fg by (subst sel) (simp add: argb_BLACK argb_gray)
  have bg: ?bg by (simp add: get_bg_colour_def argb_BLACK argb_gray)
  have painted: ?painted
  proof (intro impI allI conjI)
    fix r c
    assume on: "SSD1306_FLAG_DISPLAY_ON \<in> flags (ssd1306 s)"
      and r: "r < OLED_HEIGHT_PX" and c: "c < OLED_WIDTH_PX"
    note cell = render_screen_cell [OF on r c]
    show "pixels (render_screen s) (r * OLED_WIDTH_PX + c) =
             (if lumamap s (source_row (ssd1306 s) r) (source_column (ssd1306 s) c) \<noteq> 0
              then get_fg_colour (if SSD1306_FLAG_DISPLAY_INVERTED \<in> flags (ssd1306 s) then 1 else 0)
                     (contrast_to_opacity (contrast_register (ssd1306 s)))
              else get_bg_colour (if SSD1306_FLAG_DISPLAY_INVERTED \<in> flags (ssd1306 s) then 1 else 0)
                     (contrast_to_opacity (contrast_register (ssd1306 s))))"
      unfolding cell by (rule pixel_colour_cases)
    show "argb (pixels (render_screen s) (r * OLED_WIDTH_PX + c)) =
             (if (lumamap s (source_row (ssd1306 s) r) (source_column (ssd1306 s) c) \<noteq> 0)
                   = (SSD1306_FLAG_DISPLAY_INVERTED \<in> flags (ssd1306 s))
              then (255, 0, 0, 0)
              else (255, nat \<lfloor>255 * contrast_to_opacity (contrast_register (ssd1306 s))\<rfloor>,
                         nat \<lfloor>255 * contrast_to_opacity (contrast_register (ssd1306 s))\<rfloor>,
                         nat \<lfloor>255 * contrast_to_opacity (contrast_register (ssd1306 s))\<rfloor>))"
      unfolding cell by (rule argb_pixel_colour)
  qed
  from op lo hi fg bg fgsel bgsel argb_BLACK painted show ?thesis
    by (intro conjI)
qed

theorem renderer_opacity_witness:
  "argb (get_fg_colour 0 (contrast_to_opacity 0)) = (255, 127, 127, 127)
   \<and> argb (get_fg_colour 0 (contrast_to_opacity 255)) = (255, 254, 254, 254)
   \<and> argb (get_fg_colour 1 (contrast_to_opacity 255)) = (255, 0, 0, 0)
   \<and> argb (get_bg_colour 1 (contrast_to_opacity 255)) = (255, 254, 254, 254)
   \<and> argb (pixels (render_screen inverted_frame) 0) = (255, 0, 0, 0)
   \<and> argb (pixels (render_screen inverted_frame) 1) = (255, 254, 254, 254)"
proof -
  have lo: "nat \<lfloor>255 * contrast_to_opacity 0\<rfloor> = 127"
    by (simp add: contrast_to_opacity_def)
  have hi: "nat \<lfloor>255 * contrast_to_opacity 255\<rfloor> = 254"
    by (simp add: contrast_to_opacity_def)
  note fg = conjunct1 [OF conjunct2 [OF conjunct2 [OF conjunct2]]]
  note bg = conjunct1 [OF conjunct2 [OF conjunct2 [OF conjunct2 [OF conjunct2]]]]
  note painted = conjunct2 [OF conjunct2 [OF conjunct2 [OF conjunct2 [OF conjunct2
      [OF conjunct2 [OF conjunct2 [OF conjunct2]]]]]]]
  have on: "SSD1306_FLAG_DISPLAY_ON \<in> flags (ssd1306 inverted_frame)"
    by (simp add: inverted_frame_def)
  have reg: "contrast_register (ssd1306 inverted_frame) = 255"
    and inv: "SSD1306_FLAG_DISPLAY_INVERTED \<in> flags (ssd1306 inverted_frame)"
    by (simp_all add: inverted_frame_def)
  have lit: "lumamap inverted_frame (source_row (ssd1306 inverted_frame) 0)
        (source_column (ssd1306 inverted_frame) 0) \<noteq> 0"
    and unlit: "lumamap inverted_frame (source_row (ssd1306 inverted_frame) 0)
        (source_column (ssd1306 inverted_frame) 1) = 0"
    by (simp_all add: inverted_frame_def source_row_def source_column_def mirrored_def)
  have a: "(0::nat) < OLED_HEIGHT_PX" "(0::nat) < OLED_WIDTH_PX" "(1::nat) < OLED_WIDTH_PX"
    by (simp_all add: OLED_HEIGHT_PX_def OLED_WIDTH_PX_def)
  note cell = painted [OF renderer_opacity_and_colours [of 0 0 0 inverted_frame], THEN mp, OF on,
      rule_format, THEN conjunct2]
  have "argb (get_fg_colour 0 (contrast_to_opacity 0)) = (255, 127, 127, 127)"
    using fg [OF renderer_opacity_and_colours [of 0 0 0]] by (simp add: lo)
  moreover have "argb (get_fg_colour 0 (contrast_to_opacity 255)) = (255, 254, 254, 254)"
    using fg [OF renderer_opacity_and_colours [of 255 0 0]] by (simp add: hi)
  moreover have "argb (get_fg_colour 1 (contrast_to_opacity 255)) = (255, 0, 0, 0)"
    using fg [OF renderer_opacity_and_colours [of 255 1 0]] by simp
  moreover have "argb (get_bg_colour 1 (contrast_to_opacity 255)) = (255, 254, 254, 254)"
    using bg [OF renderer_opacity_and_colours [of 255 1 0]] by (simp add: hi)
  moreover have "argb (pixels (render_screen inverted_frame) 0) = (255, 0, 0, 0)"
    using cell [OF a(1) a(2)] lit inv by simp
  moreover have "argb (pixels (render_screen inverted_frame) 1) = (255, 254, 254, 254)"
    using cell [OF a(1) a(3)] unlit inv by (simp add: reg hi)
  ultimately show ?thesis by simp
qed

text \<open>
  C7. With the display on, cell \<open>(r, c)\<close> of the row-major buffer shows the LumaMap
  cell whose row is \<open>r\<close>, counted from the bottom when the scan flag is raised, and
  whose column is \<open>c\<close>, counted from the right when the segment remap flag is raised:
  each flag reverses its own axis and leaves the other alone. So buffer index
  \<open>(0, 0)\<close> shows the top-left, top-right, bottom-left or bottom-right corner of the
  LumaMap for the four combinations. Nothing behind the frame is written.
\<close>

theorem renderer_mirroring:
  "SSD1306_FLAG_DISPLAY_ON \<in> flags (ssd1306 s) \<Longrightarrow>
     (\<forall>r<OLED_HEIGHT_PX. \<forall>c<OLED_WIDTH_PX.
        pixels (render_screen s) (r * OLED_WIDTH_PX + c) =
          pixel_colour (ssd1306 s) (lumamap s (source_row (ssd1306 s) r) (source_column (ssd1306 s) c)))
     \<and> pixels (render_screen s) 0 =
         pixel_colour (ssd1306 s)
           (lumamap s (if SSD1306_FLAG_COM_SCAN_NORMAL \<in> flags (ssd1306 s) then 63 else 0)
                      (if SSD1306_FLAG_SEGMENT_REMAP_0 \<in> flags (ssd1306 s) then 127 else 0))
     \<and> (\<forall>k\<ge>OLED_HEIGHT_PX * OLED_WIDTH_PX. pixels (render_screen s) k = pixels s k)"
proof -
  assume on: "SSD1306_FLAG_DISPLAY_ON \<in> flags (ssd1306 s)"
  have cell: "pixels (render_screen s) (r * OLED_WIDTH_PX + c) =
      pixel_colour (ssd1306 s) (lumamap s (source_row (ssd1306 s) r) (source_column (ssd1306 s) c))"
    if "r < OLED_HEIGHT_PX" "c < OLED_WIDTH_PX" for r c
  proof -
    have "r * OLED_WIDTH_PX + c < OLED_HEIGHT_PX * OLED_WIDTH_PX"
      using that by (simp add: OLED_HEIGHT_PX_def OLED_WIDTH_PX_def)
    moreover have "(r * OLED_WIDTH_PX + c) div OLED_WIDTH_PX = r"
      "(r * OLED_WIDTH_PX + c) mod OLED_WIDTH_PX = c"
      using that by simp_all
    ultimately show ?thesis
      by (simp add: render_screen_on [OF on])
  qed
  have corner: "pixels (render_screen s) 0 =
         pixel_colour (ssd1306 s)
           (lumamap s (if SSD1306_FLAG_COM_SCAN_NORMAL \<in> flags (ssd1306 s) then 63 else 0)
                      (if SSD1306_FLAG_SEGMENT_REMAP_0 \<in> flags (ssd1306 s) then 127 else 0))"
    using cell [of 0 0]
    by (simp add: source_row_def source_column_def mirrored_def OLED_HEIGHT_PX_def OLED_WIDTH_PX_def)
  have rest: "pixels (render_screen s) k = pixels s k" if "OLED_HEIGHT_PX * OLED_WIDTH_PX \<le> k" for k
    using that by (simp add: render_screen_on [OF on])
  from cell corner rest show ?thesis by blast
qed

theorem renderer_mirroring_witness:
  "pixels (render_screen corner_frame) 0 = 0xFF7F7F7F
   \<and> pixels (render_screen corner_frame) 1 = 0xFF000000"
proof -
  have on: "SSD1306_FLAG_DISPLAY_ON \<in> flags (ssd1306 corner_frame)"
    by (simp add: corner_frame_def)
  have fg: "pixel_colour (ssd1306 corner_frame) 1 = 0xFF7F7F7F"
    by (simp add: corner_frame_def pixel_colour_def blank_part_def colour_of_def get_fg_colour_def
        RGB_def to_uint8_def contrast_to_opacity_def)
  have bg: "pixel_colour (ssd1306 corner_frame) 0 = 0xFF000000"
    by (simp add: corner_frame_def pixel_colour_def blank_part_def colour_of_def get_bg_colour_def
        BLACK_def RGB_def to_uint8_def)
  note th = renderer_mirroring [OF on]
  from th have "pixels (render_screen corner_frame) 0 = pixel_colour (ssd1306 corner_frame) 1"
    by (simp add: corner_frame_def)
  moreover have "pixels (render_screen corner_frame) (0 * OLED_WIDTH_PX + 1) =
      pixel_colour (ssd1306 corner_frame)
        (lumamap corner_frame (source_row (ssd1306 corner_frame) 0) (source_column (ssd1306 corner_frame) 1))"
    using th [THEN conjunct1, rule_format, of 0 1]
    by (simp add: OLED_HEIGHT_PX_def OLED_WIDTH_PX_def)
  then have "pixels (render_screen corner_frame) 1 = pixel_colour (ssd1306 corner_frame) 0"
    by (simp add: corner_frame_def source_row_def source_column_def mirrored_def OLED_WIDTH_PX_def)
  ultimately show ?thesis by (simp only: fg bg)
qed

section \<open>Properties of the frame scheduler\<close>

lemma period_16MHz: "avr_usec_to_cycles late_engine REFRESH_PERIOD_US = 266656"
  by (simp add: avr_usec_to_cycles_def late_engine_def REFRESH_PERIOD_US_def)

text \<open>
  C2. The callback calls the renderer and sets the yield flag, and the cycle it
  returns for its next firing is the engine's current cycle counter plus one period:
  \<open>when\<close>, the cycle the firing was scheduled for, does not enter the result. At
  16 MHz a firing scheduled for cycle 266656 that runs at cycle 266700 re-arms for
  533356; one period after the scheduled cycle is 533312.
\<close>

theorem scheduler_rearms_from_current_cycle:
  "fst (update_screen a when s) = cycle a + avr_usec_to_cycles a REFRESH_PERIOD_US
   \<and> snd (update_screen a when s) = (render_screen s)\<lparr>yield := True\<rparr>
   \<and> fst (update_screen late_engine 266656 s) = 533356
   \<and> 266656 + avr_usec_to_cycles late_engine REFRESH_PERIOD_US = 533312"
  by (simp add: update_screen_def period_16MHz) (simp add: late_engine_def)

section \<open>Properties of the persistent state accessor\<close>

text \<open>
  C3. In a session both accessors reach for the persistent memory through the
  address of \<^verbatim>\<open>mod_s.avr\<close>, where no engine object lies, and have no defined result:
  nothing is copied between the caller's array and the engine's region. Without a
  session both return false and copy nothing.
\<close>

theorem eeprom_accessors_miss_the_engine:
  "arduboy_avr_set_eeprom session x = Inl Invalid_access
   \<and> arduboy_avr_get_eeprom session buf = Inl Invalid_access
   \<and> arduboy_avr_set_eeprom no_session x = Inr (False, no_session)
   \<and> arduboy_avr_get_eeprom no_session buf = Inr (False, buf)"
  by (simp add: arduboy_avr_set_eeprom_def arduboy_avr_get_eeprom_def mcu_eeprom_def
      session_def no_session_def)

section \<open>Properties of the input controller\<close>

lemma button_event_same:
  "pressed (buttons m i) = p \<Longrightarrow> arduboy_avr_button_event i p m = m"
  by (simp add: arduboy_avr_button_event_def button_ptr_def)

lemma button_event_change:
  "avr (mod_s m) \<noteq> None \<Longrightarrow> i < BTN_COUNT \<Longrightarrow> pressed (buttons m i) \<noteq> p \<Longrightarrow>
   arduboy_avr_button_event i p m =
     m\<lparr>raised := raised m @ [(irq (buttons m i), if p then 0 else 1)],
       buttons := (buttons m)(i := (buttons m i)\<lparr>pressed := p\<rparr>)\<rparr>"
  by (auto simp: arduboy_avr_button_event_def button_ptr_def avr_raise_irq_def)

lemma button_event_repeat:
  "pressed (buttons m i) = p \<Longrightarrow> (arduboy_avr_button_event i p ^^ n) m = m"
  by (induction n) (simp_all add: button_event_same)

text \<open>
  C9. In a session and for a button of the table: a call whose value is the stored
  state changes nothing; a call whose value differs raises the button's line once, to
  0 for a press and to 1 for a release, and stores the value. So from a released
  button, a press followed by any number \<open>n\<close> of further presses is one call of
  \<^verbatim>\<open>avr_raise_irq\<close> (the line goes from 1 to 0, one transition), and the release that
  follows is one more (back to 1, the second transition).
\<close>

theorem button_event_edge_triggered:
  assumes "avr (mod_s m) \<noteq> None" and "i < BTN_COUNT"
  shows "(pressed (buttons m i) = p \<longrightarrow> arduboy_avr_button_event i p m = m)
   \<and> (pressed (buttons m i) \<noteq> p \<longrightarrow>
        arduboy_avr_button_event i p m =
          m\<lparr>raised := raised m @ [(irq (buttons m i), if p then 0 else 1)],
            buttons := (buttons m)(i := (buttons m i)\<lparr>pressed := p\<rparr>)\<rparr>)
   \<and> (\<not> pressed (buttons m i) \<longrightarrow>
        raised ((arduboy_avr_button_event i True ^^ Suc n) m) = raised m @ [(irq (buttons m i), 0)]
        \<and> transitions_from 1 (drop (length (raised m))
              (raised ((arduboy_avr_button_event i True ^^ Suc n) m))) (irq (buttons m i)) = 1
        \<and> raised (arduboy_avr_button_event i False ((arduboy_avr_button_event i True ^^ Suc n) m)) =
            raised m @ [(irq (buttons m i), 0), (irq (buttons m i), 1)]
        \<and> transitions_from 1 (drop (length (raised m))
              (raised (arduboy_avr_button_event i False ((arduboy_avr_button_event i True ^^ Suc n) m))))
              (irq (buttons m i)) = 2
        \<and> \<not> pressed (buttons
              (arduboy_avr_button_event i False ((arduboy_avr_button_event i True ^^ Suc n) m)) i))"
proof (intro conjI impI)
  assume "pressed (buttons m i) = p"
  then show "arduboy_avr_button_event i p m = m" by (rule button_event_same)
next
  assume "pressed (buttons m i) \<noteq> p"
  with assms show "arduboy_avr_button_event i p m =
          m\<lparr>raised := raised m @ [(irq (buttons m i), if p then 0 else 1)],
            buttons := (buttons m)(i := (buttons m i)\<lparr>pressed := p\<rparr>)\<rparr>"
    by (rule button_event_change)
next
  assume up: "\<not> pressed (buttons m i)"
  let ?m1 = "m\<lparr>raised := raised m @ [(irq (buttons m i), 0)],
            buttons := (buttons m)(i := (buttons m i)\<lparr>pressed := True\<rparr>)\<rparr>"
  have first: "arduboy_avr_button_event i True m = ?m1"
    using button_event_change [OF assms, of True] up by simp
  have "(arduboy_avr_button_event i True ^^ Suc n) m =
      (arduboy_avr_button_event i True ^^ n) (arduboy_avr_button_event i True m)"
    by (simp only: funpow_Suc_right o_apply)
  also have "\<dots> = ?m1"
    unfolding first by (rule button_event_repeat) simp
  finally have held: "(arduboy_avr_button_event i True ^^ Suc n) m = ?m1" .
  have release: "arduboy_avr_button_event i False ?m1 =
      ?m1\<lparr>raised := raised ?m1 @ [(irq (buttons ?m1 i), 1)],
          buttons := (buttons ?m1)(i := (buttons ?m1 i)\<lparr>pressed := False\<rparr>)\<rparr>"
    using button_event_change [of ?m1 i False] assms by simp
  show "raised ((arduboy_avr_button_event i True ^^ Suc n) m) = raised m @ [(irq (buttons m i), 0)]"
    unfolding held by simp
  show "transitions_from 1 (drop (length (raised m))
              (raised ((arduboy_avr_button_event i True ^^ Suc n) m))) (irq (buttons m i)) = 1"
    unfolding held by simp
  show "raised (arduboy_avr_button_event i False ((arduboy_avr_button_event i True ^^ Suc n) m)) =
            raised m @ [(irq (buttons m i), 0), (irq (buttons m i), 1)]"
    unfolding held release by simp
  show "transitions_from 1 (drop (length (raised m))
              (raised (arduboy_avr_button_event i False ((arduboy_avr_button_event i True ^^ Suc n) m))))
              (irq (buttons m i)) = 2"
    unfolding held release by simp
  show "\<not> pressed (buttons
              (arduboy_avr_button_event i False ((arduboy_avr_button_event i True ^^ Suc n) m)) i)"
    unfolding held release by simp
qed

theorem button_event_edge_witness:
  "raised (arduboy_avr_button_event 4 True session) = raised session @ [(Some 4, 0)]
   \<and> raised ((arduboy_avr_button_event 4 True ^^ Suc 3) session) = raised session @ [(Some 4, 0)]
   \<and> raised (arduboy_avr_button_event 4 False ((arduboy_avr_button_event 4 True ^^ Suc 3) session)) =
        raised session @ [(Some 4, 0), (Some 4, 1)]"
proof -
  have a: "avr (mod_s session) \<noteq> None" by (simp add: session_def)
  have b: "(4::nat) < BTN_COUNT" by (simp add: BTN_COUNT_def)
  have up: "\<not> pressed (buttons session 4)" by (simp add: session_def buttons_init_def)
  have line: "irq (buttons session 4) = Some 4" by (simp add: session_def)
  note seq = button_event_edge_triggered [OF a b, of True 3, THEN conjunct2, THEN conjunct2,
      rule_format, OF up, unfolded line]
  note once = button_event_edge_triggered [OF a b, of True 0, THEN conjunct2, THEN conjunct2,
      rule_format, OF up, unfolded line]
  from once have "raised (arduboy_avr_button_event 4 True session) = raised session @ [(Some 4, 0)]"
    by simp
  with seq show ?thesis by simp
qed

text \<open>
  C10. With a button id that is not below \<^verbatim>\<open>BTN_COUNT\<close>, or without a session, the
  call returns the machine as it was: no line is raised and no stored state changes.
  The pointer into the table is \<^verbatim>\<open>NULL\<close> for such an id, and whenever it is not
  \<^verbatim>\<open>NULL\<close> it is the entry of an id below \<^verbatim>\<open>BTN_COUNT\<close>.
\<close>

theorem button_event_guarded:
  "(BTN_COUNT \<le> btn_e \<or> avr (mod_s m) = None \<longrightarrow> arduboy_avr_button_event btn_e p m = m)
   \<and> (BTN_COUNT \<le> btn_e \<longrightarrow> button_ptr btn_e = None)
   \<and> (\<forall>i. button_ptr btn_e = Some i \<longrightarrow> i = btn_e \<and> i < BTN_COUNT)"
  by (auto simp: arduboy_avr_button_event_def button_ptr_def)

theorem button_event_guarded_witness:
  "arduboy_avr_button_event 6 True session = session
   \<and> arduboy_avr_button_event 4294967295 True session = session
   \<and> arduboy_avr_button_event 4 True no_session = no_session"
proof -
  have "BTN_COUNT \<le> 6" "BTN_COUNT \<le> 4294967295" by (simp_all add: BTN_COUNT_def)
  moreover have "avr (mod_s no_session) = None" by (simp add: no_session_def)
  ultimately show ?thesis
    using button_event_guarded [of 6 session True] button_event_guarded [of 4294967295 session True]
      button_event_guarded [of 4 no_session True]
    by blast
qed

section \<open>Properties of the execution loop\<close>

lemma avr_run_terminal:
  "(fst (avr_run engine m) = cpu_Done \<or> fst (avr_run engine m) = cpu_Crashed) =
     terminal (snd (avr_run engine m))"
  by (simp add: avr_run_def terminal_def)

lemma after_runs_0: "after_runs engine 0 m = m"
  by (simp add: after_runs_def)

lemma after_runs_Suc: "after_runs engine (Suc n) m = snd (avr_run engine (after_runs engine n m))"
  by (simp add: after_runs_def)

lemma after_runs_shift:
  "after_runs engine (Suc n) m = after_runs engine n (snd (avr_run engine m))"
  by (simp only: after_runs_def funpow_Suc_right o_apply)

lemma run_burst_step:
  "run_burst engine m =
     (if yield (mod_s m) then Some (True, m)
      else if terminal (snd (avr_run engine m)) then Some (False, snd (avr_run engine m))
      else run_burst engine (snd (avr_run engine m)))"
  by (subst run_burst.simps) (simp only: avr_run_terminal)

lemma keeps_running_0: "keeps_running engine 0 m"
  by (simp add: keeps_running_def)

lemma keeps_running_Suc:
  "keeps_running engine (Suc n) m =
     (keeps_running engine n m \<and> \<not> terminal (after_runs engine (Suc n) m)
      \<and> \<not> yield (mod_s (after_runs engine (Suc n) m)))"
proof -
  have "{1..Suc n} = insert (Suc n) {1..n}" by auto
  then show ?thesis by (auto simp: keeps_running_def)
qed

lemma keeps_running_shift:
  "keeps_running engine (Suc n) m =
     (\<not> terminal (snd (avr_run engine m)) \<and> \<not> yield (mod_s (snd (avr_run engine m)))
      \<and> keeps_running engine n (snd (avr_run engine m)))"
proof (induction n)
  case 0
  show ?case by (simp add: keeps_running_Suc keeps_running_0 after_runs_Suc after_runs_0)
next
  case (Suc n)
  show ?case
    by (subst keeps_running_Suc, subst Suc.IH)
      (auto simp: keeps_running_Suc after_runs_shift [of engine "Suc n"])
qed

lemma not_yield_after:
  "\<not> yield (mod_s m) \<Longrightarrow> keeps_running engine n m \<Longrightarrow> \<not> yield (mod_s (after_runs engine n m))"
  by (cases n) (simp_all add: after_runs_0 keeps_running_Suc)

lemma run_burst_skip:
  "\<not> yield (mod_s m) \<Longrightarrow> keeps_running engine n m \<Longrightarrow>
   run_burst engine m = run_burst engine (after_runs engine n m)"
proof (induction n)
  case 0
  show ?case by (simp add: after_runs_0)
next
  case (Suc n)
  then have k: "keeps_running engine n m"
    and nt: "\<not> terminal (after_runs engine (Suc n) m)"
    by (simp_all add: keeps_running_Suc)
  have ny: "\<not> yield (mod_s (after_runs engine n m))"
    using Suc.prems(1) k by (rule not_yield_after)
  have "run_burst engine m = run_burst engine (after_runs engine n m)"
    using Suc.prems(1) k by (rule Suc.IH)
  also have "\<dots> = run_burst engine (after_runs engine (Suc n) m)"
    using ny nt by (subst run_burst_step) (simp add: after_runs_Suc)
  finally show ?case .
qed

lemma run_burst_yield: "yield (mod_s m) \<Longrightarrow> run_burst engine m = Some (True, m)"
  by (subst run_burst_step) simp

lemma run_burst_ends:
  assumes "\<not> yield (mod_s m)" and "keeps_running engine n m"
  shows "run_burst engine m =
     (if terminal (after_runs engine (Suc n) m) then Some (False, after_runs engine (Suc n) m)
      else if yield (mod_s (after_runs engine (Suc n) m)) then Some (True, after_runs engine (Suc n) m)
      else run_burst engine (after_runs engine (Suc n) m))"
proof -
  have ny: "\<not> yield (mod_s (after_runs engine n m))"
    using assms by (rule not_yield_after)
  have "run_burst engine m = run_burst engine (after_runs engine n m)"
    using assms by (rule run_burst_skip)
  also have "\<dots> =
     (if terminal (after_runs engine (Suc n) m) then Some (False, after_runs engine (Suc n) m)
      else run_burst engine (after_runs engine (Suc n) m))"
    using ny by (subst run_burst_step) (simp add: after_runs_Suc)
  also have "\<dots> =
     (if terminal (after_runs engine (Suc n) m) then Some (False, after_runs engine (Suc n) m)
      else if yield (mod_s (after_runs engine (Suc n) m)) then Some (True, after_runs engine (Suc n) m)
      else run_burst engine (after_runs engine (Suc n) m))"
    by (simp add: run_burst_yield)
  finally show ?thesis .
qed

lemma ends_burst_first:
  "\<not> yield (mod_s m) \<Longrightarrow>
   terminal (snd (avr_run engine m)) \<or> yield (mod_s (snd (avr_run engine m))) \<Longrightarrow>
   ends_burst engine m (\<not> terminal (snd (avr_run engine m)), snd (avr_run engine m))"
  unfolding ends_burst_def
  using keeps_running_0 [of engine m] by (auto simp: after_runs_Suc after_runs_0)

lemma ends_burst_later:
  assumes "\<not> yield (mod_s m)" and "\<not> terminal (snd (avr_run engine m))"
    and "ends_burst engine (snd (avr_run engine m)) r"
  shows "ends_burst engine m r"
proof (cases "yield (mod_s (snd (avr_run engine m)))")
  case True
  with assms(3) have "r = (True, snd (avr_run engine m))"
    by (simp add: ends_burst_def)
  with ends_burst_first [of m engine] assms(1,2) True show ?thesis by simp
next
  case False
  with assms(3) obtain n where k: "keeps_running engine n (snd (avr_run engine m))"
    and e: "terminal (after_runs engine (Suc n) (snd (avr_run engine m)))
        \<or> yield (mod_s (after_runs engine (Suc n) (snd (avr_run engine m))))"
    and r: "r = (\<not> terminal (after_runs engine (Suc n) (snd (avr_run engine m))),
        after_runs engine (Suc n) (snd (avr_run engine m)))"
    unfolding ends_burst_def by blast
  have "keeps_running engine (Suc n) m"
    using assms(2) False k by (simp add: keeps_running_shift)
  moreover have "after_runs engine (Suc (Suc n)) m = after_runs engine (Suc n) (snd (avr_run engine m))"
    by (rule after_runs_shift)
  ultimately have "keeps_running engine (Suc n) m \<and>
      (terminal (after_runs engine (Suc (Suc n)) m) \<or> yield (mod_s (after_runs engine (Suc (Suc n)) m))) \<and>
      r = (\<not> terminal (after_runs engine (Suc (Suc n)) m), after_runs engine (Suc (Suc n)) m)"
    using e r by simp
  with assms(1) show ?thesis unfolding ends_burst_def by blast
qed

lemma run_burst_Some:
  assumes "run_burst engine m = Some r"
  shows "ends_burst engine m r"
  using assms
proof (rule run_burst.raw_induct [rotated 1])
  fix burst engine m r
  assume IH: "\<And>e m r. burst e m = Some r \<Longrightarrow> ends_burst e m r"
    and step: "(if yield (mod_s m) then Some (True, m)
      else if fst (avr_run engine m) = cpu_Done \<or> fst (avr_run engine m) = cpu_Crashed
           then Some (False, snd (avr_run engine m))
           else burst engine (snd (avr_run engine m))) = Some r"
  show "ends_burst engine m r"
  proof (cases "yield (mod_s m)")
    case True
    with step show ?thesis by (simp add: ends_burst_def)
  next
    case ny: False
    show ?thesis
    proof (cases "terminal (snd (avr_run engine m))")
      case True
      with ny step have "r = (False, snd (avr_run engine m))"
        by (simp add: avr_run_terminal)
      with ends_burst_first [of m engine] ny True show ?thesis by simp
    next
      case nt: False
      with ny step have "burst engine (snd (avr_run engine m)) = Some r"
        by (simp add: avr_run_terminal)
      then have "ends_burst engine (snd (avr_run engine m)) r" by (rule IH)
      with ny nt show ?thesis by (rule ends_burst_later)
    qed
  qed
qed

lemma run_burst_iff:
  "\<not> yield (mod_s m) \<Longrightarrow>
   run_burst engine m = Some r \<longleftrightarrow>
     (\<exists>n. keeps_running engine n m \<and>
        (terminal (after_runs engine (Suc n) m) \<or> yield (mod_s (after_runs engine (Suc n) m))) \<and>
        r = (\<not> terminal (after_runs engine (Suc n) m), after_runs engine (Suc n) m))"
proof
  assume "\<not> yield (mod_s m)" "run_burst engine m = Some r"
  then show "\<exists>n. keeps_running engine n m \<and>
        (terminal (after_runs engine (Suc n) m) \<or> yield (mod_s (after_runs engine (Suc n) m))) \<and>
        r = (\<not> terminal (after_runs engine (Suc n) m), after_runs engine (Suc n) m)"
    using run_burst_Some [of engine m r] by (simp add: ends_burst_def)
next
  assume ny: "\<not> yield (mod_s m)"
    and "\<exists>n. keeps_running engine n m \<and>
        (terminal (after_runs engine (Suc n) m) \<or> yield (mod_s (after_runs engine (Suc n) m))) \<and>
        r = (\<not> terminal (after_runs engine (Suc n) m), after_runs engine (Suc n) m)"
  then obtain n where k: "keeps_running engine n m"
    and e: "terminal (after_runs engine (Suc n) m) \<or> yield (mod_s (after_runs engine (Suc n) m))"
    and r: "r = (\<not> terminal (after_runs engine (Suc n) m), after_runs engine (Suc n) m)"
    by blast
  from e r show "run_burst engine m = Some r"
    unfolding run_burst_ends [OF ny k] by auto
qed

lemma run_burst_None:
  "\<not> yield (mod_s m) \<Longrightarrow> run_burst engine m = None \<longleftrightarrow> (\<forall>n. keeps_running engine n m)"
proof
  assume ny: "\<not> yield (mod_s m)" and none: "run_burst engine m = None"
  show "\<forall>n. keeps_running engine n m"
  proof
    fix n
    show "keeps_running engine n m"
    proof (induction n)
      case 0
      show ?case by (rule keeps_running_0)
    next
      case (Suc n)
      from run_burst_ends [OF ny Suc] none
      have "\<not> terminal (after_runs engine (Suc n) m) \<and> \<not> yield (mod_s (after_runs engine (Suc n) m))"
        by (auto split: if_splits)
      with Suc show ?case by (simp add: keeps_running_Suc)
    qed
  qed
next
  assume ny: "\<not> yield (mod_s m)" and all: "\<forall>n. keeps_running engine n m"
  show "run_burst engine m = None"
  proof (rule ccontr)
    assume "run_burst engine m \<noteq> None"
    then obtain r where "run_burst engine m = Some r" by blast
    with ny obtain n where
      "terminal (after_runs engine (Suc n) m) \<or> yield (mod_s (after_runs engine (Suc n) m))"
      by (auto simp: run_burst_iff)
    moreover from all have "keeps_running engine (Suc n) m" by blast
    ultimately show False by (simp add: keeps_running_Suc)
  qed
qed

lemma hook_pixels_yield:
  "pixels (hook_ssd1306_write_data s) = pixels s \<and> yield (hook_ssd1306_write_data s) = yield s"
  by (simp add: hook_cases)

lemma no_timer_no_render:
  "Timer_due \<notin> set acts \<Longrightarrow>
   pixels (mod_s (fold dispatch acts m)) = pixels (mod_s m)
   \<and> yield (mod_s (fold dispatch acts m)) = yield (mod_s m)"
proof (induction acts arbitrary: m)
  case Nil
  show ?case by simp
next
  case (Cons a acts)
  then have rest: "Timer_due \<notin> set acts" and a: "a \<noteq> Timer_due" by auto
  from a have "pixels (mod_s (dispatch a m)) = pixels (mod_s m)
      \<and> yield (mod_s (dispatch a m)) = yield (mod_s m)"
    by (cases a) (simp_all add: hook_pixels_yield)
  with Cons.IH [OF rest, of "dispatch a m"] show ?case by simp
qed

lemma loop_active:
  "avr (mod_s m) \<noteq> None \<Longrightarrow>
   arduboy_avr_loop engine pixel_buffer m = run_burst engine (loop_entry pixel_buffer m)"
  by (auto simp: arduboy_avr_loop_def loop_entry_def)

lemma loop_entry_fields:
  "\<not> yield (mod_s (loop_entry pixel_buffer m))" "pixels (mod_s (loop_entry pixel_buffer m)) = pixel_buffer"
  by (simp_all add: loop_entry_def)

text \<open>
  C4. In a session the loop clears the yield flag, binds the buffer, and calls
  \<^verbatim>\<open>avr_run\<close> until a call reports \<^verbatim>\<open>cpu_Done\<close> or \<^verbatim>\<open>cpu_Crashed\<close> or leaves the
  yield flag set. It returns false exactly when a call of the burst reports a
  terminal state, with the machine that call left; it returns true exactly when the
  burst ends instead with a call that leaves the yield flag set; and it has no other
  way out: it never returns exactly when every call leaves the engine running and the
  flag clear. When the first call already reports a terminal state the loop returns
  false after that one call, and if the timer did not fire in it the renderer has not
  run: the buffer is as the caller passed it and the yield flag is clear. That is so
  in particular for an engine that is in a terminal state when the loop is called and
  does nothing when it is run. Without a session there is no burst: the loop returns
  false and the engine is not run.
\<close>

theorem loop_fails_exactly_on_terminal_state:
  "(avr (mod_s m) = None \<longrightarrow> arduboy_avr_loop engine pixel_buffer m = Some (False, m))
   \<and> (avr (mod_s m) \<noteq> None \<longrightarrow>
         (arduboy_avr_loop engine pixel_buffer m = Some (False, m') \<longleftrightarrow>
            (\<exists>n. keeps_running engine n (loop_entry pixel_buffer m)
               \<and> terminal (after_runs engine (Suc n) (loop_entry pixel_buffer m))
               \<and> m' = after_runs engine (Suc n) (loop_entry pixel_buffer m)))
       \<and> (arduboy_avr_loop engine pixel_buffer m = Some (True, m') \<longleftrightarrow>
            (\<exists>n. keeps_running engine n (loop_entry pixel_buffer m)
               \<and> \<not> terminal (after_runs engine (Suc n) (loop_entry pixel_buffer m))
               \<and> yield (mod_s (after_runs engine (Suc n) (loop_entry pixel_buffer m)))
               \<and> m' = after_runs engine (Suc n) (loop_entry pixel_buffer m)))
       \<and> (arduboy_avr_loop engine pixel_buffer m = None \<longleftrightarrow>
            (\<forall>n. keeps_running engine n (loop_entry pixel_buffer m)))
       \<and> (terminal (after_runs engine 1 (loop_entry pixel_buffer m)) \<longrightarrow>
            arduboy_avr_loop engine pixel_buffer m =
              Some (False, after_runs engine 1 (loop_entry pixel_buffer m)))
       \<and> (terminal (after_runs engine 1 (loop_entry pixel_buffer m))
            \<and> Timer_due \<notin> set (engine (loop_entry pixel_buffer m)) \<longrightarrow>
            pixels (mod_s (after_runs engine 1 (loop_entry pixel_buffer m))) = pixel_buffer
            \<and> \<not> yield (mod_s (after_runs engine 1 (loop_entry pixel_buffer m))))
       \<and> (terminal m \<and> engine (loop_entry pixel_buffer m) = [] \<longrightarrow>
            arduboy_avr_loop engine pixel_buffer m = Some (False, loop_entry pixel_buffer m)))"
  (is "?none \<and> (?active \<longrightarrow> ?rest)")
proof -
  have none: ?none
    by (simp add: arduboy_avr_loop_def)
  have rest: ?rest if active: ?active
  proof -
    let ?m0 = "loop_entry pixel_buffer m"
    note ny = loop_entry_fields(1) [of pixel_buffer m]
    note loop = loop_active [OF active, of engine pixel_buffer]
    have fails: "arduboy_avr_loop engine pixel_buffer m = Some (False, m') \<longleftrightarrow>
        (\<exists>n. keeps_running engine n ?m0 \<and> terminal (after_runs engine (Suc n) ?m0)
           \<and> m' = after_runs engine (Suc n) ?m0)"
      unfolding loop run_burst_iff [OF ny] by auto
    have yields: "arduboy_avr_loop engine pixel_buffer m = Some (True, m') \<longleftrightarrow>
        (\<exists>n. keeps_running engine n ?m0 \<and> \<not> terminal (after_runs engine (Suc n) ?m0)
           \<and> yield (mod_s (after_runs engine (Suc n) ?m0))
           \<and> m' = after_runs engine (Suc n) ?m0)"
      unfolding loop run_burst_iff [OF ny] by auto
    have forever: "arduboy_avr_loop engine pixel_buffer m = None \<longleftrightarrow>
        (\<forall>n. keeps_running engine n ?m0)"
      unfolding loop by (rule run_burst_None [OF ny])
    have at_once: "arduboy_avr_loop engine pixel_buffer m = Some (False, after_runs engine 1 ?m0)"
      if "terminal (after_runs engine 1 ?m0)"
      unfolding loop using that run_burst_ends [OF ny keeps_running_0, of engine] by simp
    have untouched: "pixels (mod_s (after_runs engine 1 ?m0)) = pixel_buffer
        \<and> \<not> yield (mod_s (after_runs engine 1 ?m0))"
      if "Timer_due \<notin> set (engine ?m0)"
      using no_timer_no_render [OF that, of ?m0] loop_entry_fields [of pixel_buffer m]
      by (simp add: after_runs_Suc after_runs_0 avr_run_def)
    have halted: "arduboy_avr_loop engine pixel_buffer m = Some (False, ?m0)"
      if "terminal m" "engine ?m0 = []"
    proof -
      from that(2) have same: "after_runs engine 1 ?m0 = ?m0"
        by (simp add: after_runs_Suc after_runs_0 avr_run_def)
      from that(1) have "terminal ?m0"
        by (simp add: terminal_def loop_entry_def)
      with at_once same show ?thesis by simp
    qed
    from fails yields forever at_once untouched halted show ?thesis by blast
  qed
  from none rest show ?thesis by blast
qed

lemma session_active: "avr (mod_s session) \<noteq> None"
  by (simp add: session_def)

lemma crashing_run:
  "terminal (after_runs crashing_engine 1 (loop_entry buf session))"
  by (simp add: after_runs_Suc after_runs_0 avr_run_def crashing_engine_def terminal_def)

lemma frame_run:
  "\<not> terminal (after_runs frame_engine (Suc 0) (loop_entry buf session))
   \<and> yield (mod_s (after_runs frame_engine (Suc 0) (loop_entry buf session)))"
  by (simp add: after_runs_Suc after_runs_0 avr_run_def frame_engine_def terminal_def
      update_screen_def loop_entry_def session_def)

theorem loop_result_witness:
  "arduboy_avr_loop crashing_engine (\<lambda>k. 7) session =
     Some (False, after_runs crashing_engine 1 (loop_entry (\<lambda>k. 7) session))
   \<and> pixels (mod_s (after_runs crashing_engine 1 (loop_entry (\<lambda>k. 7) session))) = (\<lambda>k. 7)
   \<and> arduboy_avr_loop frame_engine (\<lambda>k. 7) session =
       Some (True, after_runs frame_engine (Suc 0) (loop_entry (\<lambda>k. 7) session))"
proof -
  note crash = loop_fails_exactly_on_terminal_state [of session crashing_engine "\<lambda>k. 7"
      "after_runs crashing_engine 1 (loop_entry (\<lambda>k. 7) session)",
      THEN conjunct2, THEN mp, OF session_active]
  note frame = loop_fails_exactly_on_terminal_state [of session frame_engine "\<lambda>k. 7"
      "after_runs frame_engine (Suc 0) (loop_entry (\<lambda>k. 7) session)",
      THEN conjunct2, THEN mp, OF session_active]
  have quiet: "Timer_due \<notin> set (crashing_engine (loop_entry (\<lambda>k. 7) session))"
    by (simp add: crashing_engine_def)
  from crash crashing_run [of "\<lambda>k. 7"] quiet
  have "arduboy_avr_loop crashing_engine (\<lambda>k. 7) session =
     Some (False, after_runs crashing_engine 1 (loop_entry (\<lambda>k. 7) session))
   \<and> pixels (mod_s (after_runs crashing_engine 1 (loop_entry (\<lambda>k. 7) session))) = (\<lambda>k. 7)"
    by blast
  moreover from frame frame_run [of "\<lambda>k. 7"] keeps_running_0 [of frame_engine "loop_entry (\<lambda>k. 7) session"]
  have "arduboy_avr_loop frame_engine (\<lambda>k. 7) session =
       Some (True, after_runs frame_engine (Suc 0) (loop_entry (\<lambda>k. 7) session))"
    by blast
  ultimately show ?thesis by blast
qed

end
